theory Spec2Isabelle
  imports Main "HOL-Library.Monad_Syntax"
begin

section \<open>Data model of ImReadyManager\<close>

text \<open>
  The development embeds \<^verbatim>\<open>src/ImReadyManager.ts\<close>.  Elements (DOM nodes) are values of
  an arbitrary type \<open>'e\<close>.  JavaScript numbers that only ever count upwards from zero are
  natural numbers.  Reading a property of \<^verbatim>\<open>this.elementInfos[index]\<close> with an index
  outside the array throws a \<^verbatim>\<open>TypeError\<close> in the source; a function that can throw
  returns an \<open>option\<close>, and \<open>None\<close> is that exception.  Everything the manager does to
  the outside world is written to a log kept in the state: the calls of
  \<^verbatim>\<open>this.trigger\<close>, the calls of \<^verbatim>\<open>check()\<close> and \<^verbatim>\<open>destroy()\<close> on loaders, and the
  callbacks handed to \<^verbatim>\<open>setTimeout\<close>.  Listeners of the manager's events are code of the
  consumer; they are taken not to call back into the manager while an event is delivered.
\<close>

text \<open>
  The options of a manager.  \<open>loaders\<close> holds the own keys of the \<^verbatim>\<open>loaders\<close> object in
  the order of \<^verbatim>\<open>Object.keys\<close>; the class registered under a key is named by the key.
  The object is an object literal, as the default \<^verbatim>\<open>{}\<close> of the constructor is, so beyond
  its own keys it inherits the properties of \<^verbatim>\<open>Object.prototype\<close>.
\<close>

record ImReadyOptions =
  loaders :: "string list"
  prefix :: string

text \<open>
  A loader object, named by the expression that built it: \<open>CustomLoader tagName element prefix\<close>
  is \<^verbatim>\<open>new loaders[tagName](element, { prefix })\<close> and \<open>ElementLoader element prefix\<close> is
  \<^verbatim>\<open>new ElementLoader(element, { prefix })\<close>.
\<close>

datatype 'e loader =
  CustomLoader string 'e string
| ElementLoader 'e string

datatype loader_method = Check | Destroy

record 'e ElementInfo =
  loader :: "'e loader option"
  element :: 'e
  hasLoading :: bool
  hasError :: bool
  isPreReady :: bool
  isReady :: bool

text \<open>
  The events of the manager with their payloads, the fields in the order of the object
  literal passed to \<^verbatim>\<open>this.trigger\<close>:
  \<^item> \<open>EvError element index target errorCount totalErrorCount\<close>
  \<^item> \<open>EvPreReadyElement element index preReadyCount readyCount totalCount isPreReady isReady hasLoading\<close>
  \<^item> \<open>EvPreReady readyCount totalCount isReady hasLoading\<close>
  \<^item> \<open>EvReadyElement index element hasError errorCount totalErrorCount preReadyCount
       readyCount totalCount isPreReady isReady hasLoading isPreReadyOver\<close>
  \<^item> \<open>EvReady errorCount totalErrorCount totalCount\<close>
\<close>

datatype 'e event =
  EvError 'e nat 'e nat nat
| EvPreReadyElement 'e nat nat nat nat bool bool bool
| EvPreReady nat nat bool bool
| EvReadyElement nat 'e bool nat nat nat nat nat bool bool bool bool
| EvReady nat nat nat

text \<open>
  The closures that \<^verbatim>\<open>getLoader\<close> subscribes, one constructor for each function
  expression in the source: three on the nested manager, three on the container loader.
  \<open>Consumer n\<close> is a listener of the consumer.
\<close>

datatype handler =
  ChildError
| ChildReady
| ChildPreReady
| RequestChildren
| ReqeustReadyChildren
| RequestDestroy
| Consumer nat

text \<open>The callback that \<^verbatim>\<open>check\<close> hands to \<^verbatim>\<open>setTimeout\<close> for an empty batch.\<close>

datatype callback = EmptyBatch

record 'e manager =
  options :: ImReadyOptions
  readyCount :: nat
  preReadyCount :: nat
  totalCount :: nat
  totalErrorCount :: nat
  isPreReadyOver :: bool
  elementInfos :: "'e ElementInfo list"
  listeners :: "(string \<times> handler) list"
  triggered :: "'e event list"
  loaderCalls :: "('e loader \<times> loader_method) list"
  timeouts :: "callback list"

section \<open>Construction and the event channel\<close>

text \<open>
  The constructor: the field initialisers of the class, and the options
  \<^verbatim>\<open>{ loaders: {}, prefix: "data-", ...options }\<close> of a partial options object.
\<close>

definition ImReadyManager :: "string list option \<Rightarrow> string option \<Rightarrow> 'e manager" where
  "ImReadyManager ls p =
     \<lparr> options = \<lparr> loaders = (case ls of None \<Rightarrow> [] | Some l \<Rightarrow> l),
                   prefix = (case p of None \<Rightarrow> ''data-'' | Some s \<Rightarrow> s) \<rparr>,
       readyCount = 0,
       preReadyCount = 0,
       totalCount = 0,
       totalErrorCount = 0,
       isPreReadyOver = True,
       elementInfos = [],
       listeners = [],
       triggered = [],
       loaderCalls = [],
       timeouts = [] \<rparr>"

text \<open>
  The three operations of the component base class that the manager uses: \<^verbatim>\<open>on\<close> adds a
  listener, \<^verbatim>\<open>off()\<close> without arguments removes every listener, \<^verbatim>\<open>trigger\<close> is logged.
\<close>

definition on :: "string \<Rightarrow> handler \<Rightarrow> 'e manager \<Rightarrow> 'e manager" where
  "on name h m = m\<lparr>listeners := listeners m @ [(name, h)]\<rparr>"

definition off :: "'e manager \<Rightarrow> 'e manager" where
  "off m = m\<lparr>listeners := []\<rparr>"

definition trigger :: "'e event \<Rightarrow> 'e manager \<Rightarrow> 'e manager" where
  "trigger ev m = m\<lparr>triggered := triggered m @ [ev]\<rparr>"

section \<open>Queries\<close>


definition isPreReadyM :: "'e manager \<Rightarrow> bool" where
  "isPreReadyM m = list_all isPreReady (elementInfos m)"

definition isReadyM :: "'e manager \<Rightarrow> bool" where
  "isReadyM m = list_all isReady (elementInfos m)"

definition getErrorCount :: "'e manager \<Rightarrow> nat" where
  "getErrorCount m = length (filter hasError (elementInfos m))"

definition hasLoadingM :: "'e manager \<Rightarrow> bool" where
  "hasLoadingM m = list_ex hasLoading (elementInfos m)"

section \<open>clear, destroy, clone\<close>

text \<open>
  \<^verbatim>\<open>clear\<close> resets the flag and the four counters, then walks the array and calls
  \<^verbatim>\<open>destroy()\<close> on the loader of every entry with \<^verbatim>\<open>!info.isReady && info.loader\<close>.
\<close>

definition destroyCalls :: "'e ElementInfo list \<Rightarrow> ('e loader \<times> loader_method) list" where
  "destroyCalls infos =
     concat (map (\<lambda>info. case loader info of
                            Some l \<Rightarrow> (if \<not> isReady info then [(l, Destroy)] else [])
                          | None \<Rightarrow> []) infos)"

definition clear :: "'e manager \<Rightarrow> 'e manager" where
  "clear m =
     m\<lparr> isPreReadyOver := False,
        totalCount := 0,
        preReadyCount := 0,
        readyCount := 0,
        totalErrorCount := 0,
        loaderCalls := loaderCalls m @ destroyCalls (elementInfos m),
        elementInfos := [] \<rparr>"

definition destroy :: "'e manager \<Rightarrow> 'e manager" where
  "destroy m = off (clear m)"

definition clone :: "'e manager \<Rightarrow> 'e manager" where
  "clone m = ImReadyManager (Some (loaders (options m))) (Some (prefix (options m)))"

section \<open>Bookkeeping and the events of the manager\<close>

definition checkPreReady :: "nat \<Rightarrow> 'e manager \<Rightarrow> (bool \<times> 'e manager) option" where
  "checkPreReady index m =
     (if index < length (elementInfos m) then
        let m1 = m\<lparr>elementInfos :=
                     (elementInfos m)[index := (elementInfos m ! index)\<lparr>isPreReady := True\<rparr>]\<rparr>;
            m2 = m1\<lparr>preReadyCount := preReadyCount m1 + 1\<rparr>
        in if preReadyCount m2 < totalCount m2 then Some (False, m2) else Some (True, m2)
      else None)"

definition checkReady :: "nat \<Rightarrow> 'e manager \<Rightarrow> (bool \<times> 'e manager) option" where
  "checkReady index m =
     (if index < length (elementInfos m) then
        let m1 = m\<lparr>elementInfos :=
                     (elementInfos m)[index := (elementInfos m ! index)\<lparr>isReady := True\<rparr>]\<rparr>;
            m2 = m1\<lparr>readyCount := readyCount m1 + 1\<rparr>
        in if readyCount m2 < totalCount m2 then Some (False, m2) else Some (True, m2)
      else None)"

definition onError :: "nat \<Rightarrow> 'e \<Rightarrow> 'e manager \<Rightarrow> 'e manager option" where
  "onError index target m =
     (if index < length (elementInfos m) then
        let m1 = m\<lparr>elementInfos :=
                     (elementInfos m)[index := (elementInfos m ! index)\<lparr>hasError := True\<rparr>]\<rparr>;
            info = elementInfos m1 ! index;
            errorCount = getErrorCount m1;
            m2 = m1\<lparr>totalErrorCount := totalErrorCount m1 + 1\<rparr>
        in Some (trigger (EvError (element info) index target errorCount (totalErrorCount m2)) m2)
      else None)"

definition onPreReadyElement :: "nat \<Rightarrow> 'e manager \<Rightarrow> 'e manager option" where
  "onPreReadyElement index m =
     (if index < length (elementInfos m) then
        let info = elementInfos m ! index
        in Some (trigger (EvPreReadyElement (element info) index
                            (preReadyCount m) (readyCount m) (totalCount m)
                            (isPreReadyM m) (isReadyM m) (hasLoading info)) m)
      else None)"

definition onPreReady :: "'e manager \<Rightarrow> 'e manager" where
  "onPreReady m =
     (let m1 = m\<lparr>isPreReadyOver := True\<rparr>
      in trigger (EvPreReady (readyCount m1) (totalCount m1) (isReadyM m1) (hasLoadingM m1)) m1)"

definition onReadyElement :: "nat \<Rightarrow> 'e manager \<Rightarrow> 'e manager option" where
  "onReadyElement index m =
     (if index < length (elementInfos m) then
        let info = elementInfos m ! index
        in Some (trigger (EvReadyElement index (element info)
                            (hasError info) (getErrorCount m) (totalErrorCount m)
                            (preReadyCount m) (readyCount m) (totalCount m)
                            (isPreReadyM m) (isReadyM m)
                            (hasLoading info) (isPreReadyOver m)) m)
      else None)"

definition onReady :: "'e manager \<Rightarrow> 'e manager" where
  "onReady m = trigger (EvReady (getErrorCount m) (totalErrorCount m) (totalCount m)) m"

section \<open>Loaders: getLoader and the container wiring\<close>

text \<open>
  What \<^verbatim>\<open>getLoader\<close> reads from the document.  \<open>getContentElements\<close> and
  \<open>hasLoadingAttribute\<close> are helpers of the repository's \<^verbatim>\<open>utils\<close> module and
  \<open>querySelectorAll\<close> and \<open>tagName\<close> belong to the DOM; all four are parameters, and
  all four are taken to answer.  A browser rejects an empty selector, which is what the
  keys of an empty \<^verbatim>\<open>loaders\<close> object join to; the concrete managers below register
  loaders.
\<close>

record 'e dom =
  tagName :: "'e \<Rightarrow> string"
  querySelectorAll :: "'e \<Rightarrow> string \<Rightarrow> 'e list"
  getContentElements :: "'e \<Rightarrow> string list \<Rightarrow> string \<Rightarrow> 'e list"
  hasLoadingAttribute :: "'e \<Rightarrow> bool"

text \<open>
  \<^verbatim>\<open>toLowerCase\<close> on the letters A to Z; the names of HTML tags contain no other
  letters with a lower case.
\<close>

definition toLowerCase :: "string \<Rightarrow> string" where
  "toLowerCase s =
     map (\<lambda>c. case map_of (zip ''ABCDEFGHIJKLMNOPQRSTUVWXYZ'' ''abcdefghijklmnopqrstuvwxyz'') c of
                 Some l \<Rightarrow> l
               | None \<Rightarrow> c) s"

fun join :: "string \<Rightarrow> string list \<Rightarrow> string" where
  "join sep [] = []"
| "join sep [x] = x"
| "join sep (x # y # ys) = x @ sep @ join sep (y # ys)"

text \<open>The methods of the container loader that the closures of \<^verbatim>\<open>getLoader\<close> call.\<close>

datatype 'e loader_call =
  SetHasLoading bool
| OnError 'e
| OnReady bool
| OnPreReady

text \<open>
  A container loader together with everything its closures capture: the local variables
  \<^verbatim>\<open>element\<close>, \<^verbatim>\<open>tags\<close>, \<^verbatim>\<open>children\<close>, \<^verbatim>\<open>withPreReady\<close> and \<^verbatim>\<open>childrenImReady\<close>, and
  \<^verbatim>\<open>this.options.prefix\<close> of the owning manager.  \<open>methodCalls\<close> logs the calls made on
  the loader, \<open>loaderListeners\<close> holds what \<^verbatim>\<open>loader.on\<close> subscribed.
\<close>

record 'e container =
  containerLoader :: "'e loader"
  methodCalls :: "'e loader_call list"
  loaderListeners :: "(string \<times> handler) list"
  capturedElement :: 'e
  capturedTags :: "string list"
  capturedPrefix :: string
  children :: "'e list"
  withPreReady :: bool
  childrenImReady :: "'e manager"

datatype 'e created =
  Custom "'e loader"
| Container "'e container"

text \<open>
  The value of \<^verbatim>\<open>loaders[tagName]\<close>.  The property is the object's own when the name is one
  of its keys; otherwise the lookup goes on to \<^verbatim>\<open>Object.prototype\<close>, whose properties are
  listed here, and finds \<^verbatim>\<open>undefined\<close> only when the name is not among them either.  Own
  and inherited values are truthy: a registered class, or a function or object of the
  language (\<^verbatim>\<open>loaders["constructor"]\<close> is \<^verbatim>\<open>Object\<close>).  What \<^verbatim>\<open>new\<close> makes of an
  inherited value belongs to the language and is not modelled: \<^verbatim>\<open>new Object(element,
  options)\<close> gives back the element, and the other inherited values are no constructors.
\<close>

definition objectPrototypeKeys :: "string list" where
  "objectPrototypeKeys =
     [''constructor'', ''__defineGetter__'', ''__defineSetter__'', ''hasOwnProperty'',
      ''__lookupGetter__'', ''__lookupSetter__'', ''isPrototypeOf'', ''propertyIsEnumerable'',
      ''toString'', ''valueOf'', ''__proto__'', ''toLocaleString'']"

datatype property = OwnProperty | InheritedProperty | Undefined

definition lookupLoader :: "string list \<Rightarrow> string \<Rightarrow> property" where
  "lookupLoader keys name =
     (if name \<in> set keys then OwnProperty
      else if name \<in> set objectPrototypeKeys then InheritedProperty
      else Undefined)"

definition truthy :: "property \<Rightarrow> bool" where
  "truthy p = (p \<noteq> Undefined)"

definition loaderOf :: "'e created \<Rightarrow> 'e loader" where
  "loaderOf c = (case c of Custom l \<Rightarrow> l | Container k \<Rightarrow> containerLoader k)"

definition containerOf :: "'e created \<Rightarrow> 'e container option" where
  "containerOf cr = (case cr of Custom _ \<Rightarrow> None | Container c \<Rightarrow> Some c)"

definition getLoader :: "'e dom \<Rightarrow> 'e manager \<Rightarrow> 'e \<Rightarrow> string \<Rightarrow> 'e created" where
  "getLoader d m el pfx =
     (let tag = toLowerCase (tagName d el);
          tags = loaders (options m)
      in if truthy (lookupLoader tags tag) then Custom (CustomLoader tag el pfx)
         else
           let ldr = ElementLoader el pfx;
               chn = querySelectorAll d el (join '', '' tags);
               calls = [SetHasLoading (list_ex (hasLoadingAttribute d) chn)];
               nested = on ''ready'' ChildReady (on ''error'' ChildError (clone m))
           in Container
                \<lparr> containerLoader = ldr,
                  methodCalls = calls,
                  loaderListeners = [(''requestChildren'', RequestChildren),
                                     (''reqeustReadyChildren'', ReqeustReadyChildren),
                                     (''requestDestroy'', RequestDestroy)],
                  capturedElement = el,
                  capturedTags = tags,
                  capturedPrefix = prefix (options m),
                  children = chn,
                  withPreReady = False,
                  childrenImReady = nested \<rparr>)"

section \<open>check\<close>

text \<open>
  \<^verbatim>\<open>check\<close> clears the manager, builds one loader for each element in order, calls its
  \<^verbatim>\<open>check()\<close>, and stores the new array; the three listeners it subscribes on the loader
  of index \<open>i\<close> are the functions \<open>errorListener i\<close>, \<open>preReadyListener i\<close> and
  \<open>readyListener i\<close> below.  For an empty array it hands one callback to \<^verbatim>\<open>setTimeout\<close>.
  The array keeps the loader object only; what a container loader captured stays with the
  loader, and reaches the manager as the signals of that loader.
\<close>

definition check :: "'e dom \<Rightarrow> 'e list \<Rightarrow> 'e manager \<Rightarrow> 'e manager" where
  "check d elements m =
     (let pfx = prefix (options m);
          m1 = clear m;
          made = map (\<lambda>el. loaderOf (getLoader d m1 el pfx)) elements;
          m2 = m1\<lparr>loaderCalls := loaderCalls m1 @ map (\<lambda>l. (l, Check)) made\<rparr>;
          m3 = m2\<lparr>elementInfos :=
                     map (\<lambda>(l, el). \<lparr> loader = Some l, element = el, hasLoading = False,
                                        hasError = False, isPreReady = False, isReady = False \<rparr>)
                         (zip made elements)\<rparr>;
          len = length (elementInfos m3);
          m4 = m3\<lparr>totalCount := len\<rparr>
      in if len = 0 then m4\<lparr>timeouts := timeouts m4 @ [EmptyBatch]\<rparr> else m4)"

definition errorListener :: "nat \<Rightarrow> 'e \<Rightarrow> 'e manager \<Rightarrow> 'e manager option" where
  "errorListener index target m = onError index target m"

definition preReadyListener :: "nat \<Rightarrow> bool \<Rightarrow> 'e manager \<Rightarrow> 'e manager option" where
  "preReadyListener index hl m =
     (if index < length (elementInfos m) then
        do {
          let m1 = m\<lparr>elementInfos :=
                       (elementInfos m)[index := (elementInfos m ! index)\<lparr>hasLoading := hl\<rparr>]\<rparr>;
          (isPreReady', m2) \<leftarrow> checkPreReady index m1;
          m3 \<leftarrow> onPreReadyElement index m2;
          Some (if isPreReady' then onPreReady m3 else m3)
        }
      else None)"

definition readyListener :: "nat \<Rightarrow> bool \<Rightarrow> bool \<Rightarrow> 'e manager \<Rightarrow> 'e manager option" where
  "readyListener index wpr hl m =
     (if index < length (elementInfos m) then
        do {
          let m1 = m\<lparr>elementInfos :=
                       (elementInfos m)[index := (elementInfos m ! index)\<lparr>hasLoading := hl\<rparr>]\<rparr>;
          (isPreReady', m2) \<leftarrow> (if wpr then checkPreReady index m1 else Some (False, m1));
          (isReady', m3) \<leftarrow> checkReady index m2;
          m4 \<leftarrow> (if wpr then onPreReadyElement index m3 else Some m3);
          m5 \<leftarrow> onReadyElement index m4;
          let m6 = (if isPreReady' then onPreReady m5 else m5);
          Some (if isReady' then onReady m6 else m6)
        }
      else None)"

text \<open>The callback of \<^verbatim>\<open>setTimeout\<close>, and the event loop running the oldest pending one.\<close>

definition runCallback :: "callback \<Rightarrow> 'e manager \<Rightarrow> 'e manager" where
  "runCallback t m = (case t of EmptyBatch \<Rightarrow> onReady (onPreReady m))"

definition nextTimeout :: "'e manager \<Rightarrow> 'e manager" where
  "nextTimeout m =
     (case timeouts m of
        [] \<Rightarrow> m
      | t # ts \<Rightarrow> runCallback t (m\<lparr>timeouts := ts\<rparr>))"

text \<open>
  The signals a loader of the current batch can deliver to the manager: the three events
  that \<^verbatim>\<open>check\<close> subscribed to, tagged with the index the closure captured.
\<close>

datatype 'e signal =
  SigError nat 'e
| SigPreReady nat bool
| SigReady nat bool bool

definition deliver :: "'e signal \<Rightarrow> 'e manager \<Rightarrow> 'e manager option" where
  "deliver s m =
     (case s of
        SigError i t \<Rightarrow> errorListener i t m
      | SigPreReady i hl \<Rightarrow> preReadyListener i hl m
      | SigReady i wpr hl \<Rightarrow> readyListener i wpr hl m)"

fun run :: "'e signal list \<Rightarrow> 'e manager \<Rightarrow> 'e manager option" where
  "run [] m = Some m"
| "run (s # ss) m = (case deliver s m of None \<Rightarrow> None | Some m' \<Rightarrow> run ss m')"

text \<open>The indices of the \<^verbatim>\<open>error\<close> signals in a sequence of signals, one for each signal.\<close>

definition errorIndices :: "'e signal list \<Rightarrow> nat list" where
  "errorIndices sigs =
     List.map_filter (\<lambda>s. case s of SigError i _ \<Rightarrow> Some i | _ \<Rightarrow> None) sigs"

section \<open>The closures of the container wiring\<close>

text \<open>
  The three listeners that \<^verbatim>\<open>getLoader\<close> subscribes on the container loader, and
  \<open>loaderTrigger\<close>, the loader emitting a signal by name to its listeners in order.
\<close>

definition runLoaderHandler :: "'e dom \<Rightarrow> handler \<Rightarrow> 'e container \<Rightarrow> 'e container" where
  "runLoaderHandler d h c =
     (case h of
        RequestChildren \<Rightarrow>
          (let contentElements =
                 getContentElements d (capturedElement c) (capturedTags c) (capturedPrefix c)
           in c\<lparr>childrenImReady :=
                  on ''preReady'' ChildPreReady (check d contentElements (childrenImReady c))\<rparr>)
      | ReqeustReadyChildren \<Rightarrow>
          c\<lparr>childrenImReady := check d (children c) (childrenImReady c)\<rparr>
      | RequestDestroy \<Rightarrow>
          c\<lparr>childrenImReady := destroy (childrenImReady c)\<rparr>
      | _ \<Rightarrow> c)"

definition listenersFor :: "string \<Rightarrow> (string \<times> handler) list \<Rightarrow> handler list" where
  "listenersFor name ls = map snd (filter (\<lambda>p. fst p = name) ls)"

definition loaderTrigger :: "'e dom \<Rightarrow> string \<Rightarrow> 'e container \<Rightarrow> 'e container" where
  "loaderTrigger d name c = fold (runLoaderHandler d) (listenersFor name (loaderListeners c)) c"

text \<open>
  The listeners of the nested manager, and \<open>forward\<close>, the delivery of one event of the
  nested manager to them.
\<close>

definition eventName :: "'e event \<Rightarrow> string" where
  "eventName ev =
     (case ev of
        EvError _ _ _ _ _ \<Rightarrow> ''error''
      | EvPreReadyElement _ _ _ _ _ _ _ _ \<Rightarrow> ''preReadyElement''
      | EvPreReady _ _ _ _ \<Rightarrow> ''preReady''
      | EvReadyElement _ _ _ _ _ _ _ _ _ _ _ _ \<Rightarrow> ''readyElement''
      | EvReady _ _ _ \<Rightarrow> ''ready'')"

definition runChildHandler :: "'e event \<Rightarrow> handler \<Rightarrow> 'e container \<Rightarrow> 'e container" where
  "runChildHandler ev h c =
     (case (h, ev) of
        (ChildError, EvError _ _ target _ _) \<Rightarrow>
          c\<lparr>methodCalls := methodCalls c @ [OnError target]\<rparr>
      | (ChildReady, EvReady _ _ _) \<Rightarrow>
          c\<lparr>methodCalls := methodCalls c @ [OnReady (withPreReady c)]\<rparr>
      | (ChildPreReady, EvPreReady _ _ ready _) \<Rightarrow>
          (let c1 = c\<lparr>withPreReady := ready\<rparr>
           in if \<not> withPreReady c1 then c1\<lparr>methodCalls := methodCalls c1 @ [OnPreReady]\<rparr>
              else c1)
      | _ \<Rightarrow> c)"

definition forward :: "'e event \<Rightarrow> 'e container \<Rightarrow> 'e container" where
  "forward ev c =
     fold (runChildHandler ev) (listenersFor (eventName ev) (listeners (childrenImReady c))) c"

text \<open>
  The loaders of the nested batch deliver signals to the nested manager, and every event
  the nested manager triggers on the way is delivered to its listeners, in order.
\<close>

definition childSignals :: "'e signal list \<Rightarrow> 'e container \<Rightarrow> 'e container option" where
  "childSignals sigs c =
     (case run sigs (childrenImReady c) of
        None \<Rightarrow> None
      | Some n \<Rightarrow>
          Some (fold forward (drop (length (triggered (childrenImReady c))) (triggered n))
                  (c\<lparr>childrenImReady := n\<rparr>)))"

section \<open>Observing a batch\<close>

text \<open>
  The two batch-level events, read off the log of \<^verbatim>\<open>this.trigger\<close> in the order in which
  they were triggered.
\<close>

datatype milestone = BatchPreReady | BatchReady

definition milestones :: "'e event list \<Rightarrow> milestone list" where
  "milestones evs =
     List.map_filter (\<lambda>ev. case ev of
                              EvPreReady _ _ _ _ \<Rightarrow> Some BatchPreReady
                            | EvReady _ _ _ \<Rightarrow> Some BatchReady
                            | _ \<Rightarrow> None) evs"

text \<open>
  What the loader of index \<open>i\<close> emitted in a sequence of signals, errors left out:
  \<open>PreReadyEmitted\<close> for its \<^verbatim>\<open>preReady\<close>, \<open>ReadyEmitted w\<close> for its \<^verbatim>\<open>ready\<close> with
  \<^verbatim>\<open>withPreReady = w\<close>.
\<close>

datatype emission = PreReadyEmitted | ReadyEmitted bool

definition sigIndex :: "'e signal \<Rightarrow> nat" where
  "sigIndex s = (case s of SigError i _ \<Rightarrow> i | SigPreReady i _ \<Rightarrow> i | SigReady i _ _ \<Rightarrow> i)"

definition emissions :: "nat \<Rightarrow> 'e signal list \<Rightarrow> emission list" where
  "emissions i sigs =
     List.map_filter (\<lambda>s. case s of
                             SigError _ _ \<Rightarrow> None
                           | SigPreReady j _ \<Rightarrow> (if j = i then Some PreReadyEmitted else None)
                           | SigReady j w _ \<Rightarrow> (if j = i then Some (ReadyEmitted w) else None))
                     sigs"

text \<open>
  The assumption on the loaders of a batch of \<open>n\<close> elements in the words of the
  specification: every loader emits \<^verbatim>\<open>preReady\<close> at most once and \<^verbatim>\<open>ready\<close> exactly once,
  and sets \<^verbatim>\<open>withPreReady\<close> only when it did not emit \<^verbatim>\<open>preReady\<close> separately.
\<close>

definition assumedOfLoaders :: "nat \<Rightarrow> 'e signal list \<Rightarrow> bool" where
  "assumedOfLoaders n sigs =
     (list_all (\<lambda>s. sigIndex s < n) sigs \<and>
      list_all (\<lambda>i. let es = emissions i sigs
                     in count_list es PreReadyEmitted \<le> 1 \<and>
                        count_list es (ReadyEmitted True) + count_list es (ReadyEmitted False) = 1 \<and>
                        (ReadyEmitted True \<in> set es \<longrightarrow> PreReadyEmitted \<notin> set es))
               [0..<n])"

text \<open>
  The protocol under which the batch milestones are exact: every loader either emits
  \<^verbatim>\<open>preReady\<close> and later \<^verbatim>\<open>ready\<close> with \<^verbatim>\<open>withPreReady = false\<close>, or emits only \<^verbatim>\<open>ready\<close>
  with \<^verbatim>\<open>withPreReady = true\<close>.
\<close>

definition loaderProtocol :: "nat \<Rightarrow> 'e signal list \<Rightarrow> bool" where
  "loaderProtocol n sigs =
     (list_all (\<lambda>s. sigIndex s < n) sigs \<and>
      list_all (\<lambda>i. emissions i sigs = [PreReadyEmitted, ReadyEmitted False] \<or>
                     emissions i sigs = [ReadyEmitted True])
               [0..<n])"

text \<open>
  The indices whose loader has reported pre-readiness, and readiness, in a sequence of
  signals, and the invariant that ties the counters and the log of a manager to them;
  \<open>k\<close> is the length of the log when the batch began.
\<close>

definition preReported :: "nat \<Rightarrow> 'e signal list \<Rightarrow> nat set" where
  "preReported n p = {i. i < n \<and> emissions i p \<noteq> []}"

definition readyReported :: "nat \<Rightarrow> 'e signal list \<Rightarrow> nat set" where
  "readyReported n p = {i. i < n \<and> (\<exists>w. ReadyEmitted w \<in> set (emissions i p))}"

definition batchInv :: "nat \<Rightarrow> nat \<Rightarrow> 'e signal list \<Rightarrow> 'e manager \<Rightarrow> bool" where
  "batchInv n k p m =
     (length (elementInfos m) = n \<and> totalCount m = n \<and> k \<le> length (triggered m) \<and>
      preReadyCount m = card (preReported n p) \<and>
      readyCount m = card (readyReported n p) \<and>
      milestones (drop k (triggered m)) =
        (if card (readyReported n p) = n then [BatchPreReady, BatchReady]
         else if card (preReported n p) = n then [BatchPreReady]
         else []))"

section \<open>Concrete inputs\<close>

text \<open>
  A new manager with loaders registered for images and videos.
\<close>

definition imReady :: "nat manager" where
  "imReady = ImReadyManager (Some [''img'', ''video'']) None"

text \<open>A document in which every element is an \<^verbatim>\<open>IMG\<close> without descendants.\<close>

definition imgDom :: "nat dom" where
  "imgDom = \<lparr> tagName = (\<lambda>_. ''IMG''),
             querySelectorAll = (\<lambda>_ _. []),
             getContentElements = (\<lambda>_ _ _. []),
             hasLoadingAttribute = (\<lambda>_. False) \<rparr>"

text \<open>
  A document in which element \<open>3\<close> is a \<^verbatim>\<open>DIV\<close> with the two \<^verbatim>\<open>IMG\<close> descendants \<open>1\<close>
  and \<open>2\<close>.
\<close>

definition tagDom :: "nat dom" where
  "tagDom = \<lparr> tagName = (\<lambda>el. if el = 3 then ''DIV'' else ''IMG''),
             querySelectorAll = (\<lambda>_ _. [1, 2]),
             getContentElements = (\<lambda>_ _ _. [1, 2]),
             hasLoadingAttribute = (\<lambda>_. False) \<rparr>"

text \<open>A document in which every element has the tag \<^verbatim>\<open>CONSTRUCTOR\<close>.\<close>

definition constructorDom :: "nat dom" where
  "constructorDom = \<lparr> tagName = (\<lambda>_. ''CONSTRUCTOR''),
                     querySelectorAll = (\<lambda>_ _. []),
                     getContentElements = (\<lambda>_ _ _. []),
                     hasLoadingAttribute = (\<lambda>_. False) \<rparr>"

section \<open>Closed forms of the operations\<close>

lemma checkPreReady_Some:
  "i < length (elementInfos m) \<Longrightarrow>
   checkPreReady i m =
     Some (totalCount m \<le> preReadyCount m + 1,
           m\<lparr>elementInfos := (elementInfos m)[i := (elementInfos m ! i)\<lparr>isPreReady := True\<rparr>],
             preReadyCount := preReadyCount m + 1\<rparr>)"
  by (auto simp: checkPreReady_def Let_def)

lemma checkReady_Some:
  "i < length (elementInfos m) \<Longrightarrow>
   checkReady i m =
     Some (totalCount m \<le> readyCount m + 1,
           m\<lparr>elementInfos := (elementInfos m)[i := (elementInfos m ! i)\<lparr>isReady := True\<rparr>],
             readyCount := readyCount m + 1\<rparr>)"
  by (auto simp: checkReady_def Let_def)

lemma checkPreReady_None: "\<not> i < length (elementInfos m) \<Longrightarrow> checkPreReady i m = None"
  by (simp add: checkPreReady_def)

lemma checkReady_None: "\<not> i < length (elementInfos m) \<Longrightarrow> checkReady i m = None"
  by (simp add: checkReady_def)

lemma onError_Some:
  "i < length (elementInfos m) \<Longrightarrow>
   onError i t m =
     Some (m\<lparr>elementInfos := (elementInfos m)[i := (elementInfos m ! i)\<lparr>hasError := True\<rparr>],
             totalErrorCount := totalErrorCount m + 1,
             triggered := triggered m @
               [EvError (element (elementInfos m ! i)) i t
                  (length (filter hasError
                     ((elementInfos m)[i := (elementInfos m ! i)\<lparr>hasError := True\<rparr>])))
                  (totalErrorCount m + 1)]\<rparr>)"
  by (simp add: onError_def Let_def trigger_def getErrorCount_def)

lemma triggered_trigger [simp]: "triggered (trigger ev m) = triggered m @ [ev]"
  by (simp add: trigger_def)

lemma fields_trigger [simp]:
  "elementInfos (trigger ev m) = elementInfos m"
  "totalCount (trigger ev m) = totalCount m"
  "preReadyCount (trigger ev m) = preReadyCount m"
  "readyCount (trigger ev m) = readyCount m"
  "totalErrorCount (trigger ev m) = totalErrorCount m"
  "timeouts (trigger ev m) = timeouts m"
  "listeners (trigger ev m) = listeners m"
  "loaderCalls (trigger ev m) = loaderCalls m"
  "options (trigger ev m) = options m"
  "isPreReadyOver (trigger ev m) = isPreReadyOver m"
  by (simp_all add: trigger_def)

lemma fields_onPreReady [simp]:
  "elementInfos (onPreReady m) = elementInfos m"
  "totalCount (onPreReady m) = totalCount m"
  "preReadyCount (onPreReady m) = preReadyCount m"
  "readyCount (onPreReady m) = readyCount m"
  "totalErrorCount (onPreReady m) = totalErrorCount m"
  "timeouts (onPreReady m) = timeouts m"
  "listeners (onPreReady m) = listeners m"
  "loaderCalls (onPreReady m) = loaderCalls m"
  "options (onPreReady m) = options m"
  "isPreReadyOver (onPreReady m) = True"
  by (simp_all add: onPreReady_def Let_def)

lemma fields_onReady [simp]:
  "elementInfos (onReady m) = elementInfos m"
  "totalCount (onReady m) = totalCount m"
  "preReadyCount (onReady m) = preReadyCount m"
  "readyCount (onReady m) = readyCount m"
  "totalErrorCount (onReady m) = totalErrorCount m"
  "timeouts (onReady m) = timeouts m"
  "listeners (onReady m) = listeners m"
  "loaderCalls (onReady m) = loaderCalls m"
  "options (onReady m) = options m"
  "isPreReadyOver (onReady m) = isPreReadyOver m"
  by (simp_all add: onReady_def)

lemma triggered_onPreReady:
  "triggered (onPreReady m) =
     triggered m @ [EvPreReady (readyCount m) (totalCount m) (isReadyM m) (hasLoadingM m)]"
  by (simp add: onPreReady_def Let_def isReadyM_def hasLoadingM_def)

lemma triggered_onReady:
  "triggered (onReady m) =
     triggered m @ [EvReady (getErrorCount m) (totalErrorCount m) (totalCount m)]"
  by (simp add: onReady_def)

lemma onPreReadyElement_Some:
  "i < length (elementInfos m) \<Longrightarrow>
   onPreReadyElement i m =
     Some (trigger (EvPreReadyElement (element (elementInfos m ! i)) i
                      (preReadyCount m) (readyCount m) (totalCount m)
                      (isPreReadyM m) (isReadyM m) (hasLoading (elementInfos m ! i))) m)"
  by (simp add: onPreReadyElement_def Let_def)

lemma onReadyElement_Some:
  "i < length (elementInfos m) \<Longrightarrow>
   onReadyElement i m =
     Some (trigger (EvReadyElement i (element (elementInfos m ! i))
                      (hasError (elementInfos m ! i)) (getErrorCount m) (totalErrorCount m)
                      (preReadyCount m) (readyCount m) (totalCount m)
                      (isPreReadyM m) (isReadyM m)
                      (hasLoading (elementInfos m ! i)) (isPreReadyOver m)) m)"
  by (simp add: onReadyElement_def Let_def)

lemma fields_clear [simp]:
  "elementInfos (clear m) = []"
  "totalCount (clear m) = 0"
  "preReadyCount (clear m) = 0"
  "readyCount (clear m) = 0"
  "totalErrorCount (clear m) = 0"
  "isPreReadyOver (clear m) = False"
  "timeouts (clear m) = timeouts m"
  "listeners (clear m) = listeners m"
  "triggered (clear m) = triggered m"
  "options (clear m) = options m"
  "loaderCalls (clear m) = loaderCalls m @ destroyCalls (elementInfos m)"
  by (simp_all add: clear_def)

lemma fields_check:
  "length (elementInfos (check d es m)) = length es"
  "totalCount (check d es m) = length es"
  "preReadyCount (check d es m) = 0"
  "readyCount (check d es m) = 0"
  "totalErrorCount (check d es m) = 0"
  "isPreReadyOver (check d es m) = False"
  "listeners (check d es m) = listeners m"
  "triggered (check d es m) = triggered m"
  "options (check d es m) = options m"
  "timeouts (check d es m) = (if es = [] then timeouts m @ [EmptyBatch] else timeouts m)"
  by (simp_all add: check_def Let_def)

lemma elementInfos_check:
  "elementInfos (check d es m) =
     map (\<lambda>el. \<lparr> loader = Some (loaderOf (getLoader d (clear m) el (prefix (options m)))),
                 element = el, hasLoading = False, hasError = False,
                 isPreReady = False, isReady = False \<rparr>) es"
  by (simp add: check_def Let_def zip_map1 zip_same_conv_map)


lemma milestones_simps [simp]:
  "milestones [] = []"
  "milestones (xs @ ys) = milestones xs @ milestones ys"
  "milestones (EvError a b c e f # xs) = milestones xs"
  "milestones (EvPreReadyElement a1 a2 a3 a4 a5 a6 a7 a8 # xs) = milestones xs"
  "milestones (EvPreReady b1 b2 b3 b4 # xs) = BatchPreReady # milestones xs"
  "milestones (EvReadyElement c1 c2 c3 c4 c5 c6 c7 c8 c9 c10 c11 c12 # xs) = milestones xs"
  "milestones (EvReady d1 d2 d3 # xs) = BatchReady # milestones xs"
  by (simp_all add: milestones_def List.map_filter_def)

lemma preReadyListener_Some:
  assumes "i < length (elementInfos m)"
  shows "\<exists>m' new. preReadyListener i hl m = Some m' \<and>
           elementInfos m' =
             (elementInfos m)[i := (elementInfos m ! i)\<lparr>hasLoading := hl, isPreReady := True\<rparr>] \<and>
           preReadyCount m' = preReadyCount m + 1 \<and>
           readyCount m' = readyCount m \<and>
           totalCount m' = totalCount m \<and>
           totalErrorCount m' = totalErrorCount m \<and>
           triggered m' = triggered m @ new \<and>
           milestones new = (if totalCount m \<le> preReadyCount m + 1 then [BatchPreReady] else [])"
  using assms
  by (simp add: preReadyListener_def checkPreReady_Some onPreReadyElement_Some
      triggered_onPreReady)

lemma readyListener_Some:
  assumes "i < length (elementInfos m)"
  shows "\<exists>m' new. readyListener i wpr hl m = Some m' \<and>
           elementInfos m' =
             (elementInfos m)[i := (elementInfos m ! i)
                \<lparr>hasLoading := hl, isPreReady := (wpr \<or> isPreReady (elementInfos m ! i)),
                 isReady := True\<rparr>] \<and>
           preReadyCount m' = preReadyCount m + (if wpr then 1 else 0) \<and>
           readyCount m' = readyCount m + 1 \<and>
           totalCount m' = totalCount m \<and>
           totalErrorCount m' = totalErrorCount m \<and>
           triggered m' = triggered m @ new \<and>
           milestones new =
             (if wpr \<and> totalCount m \<le> preReadyCount m + 1 then [BatchPreReady] else []) @
             (if totalCount m \<le> readyCount m + 1 then [BatchReady] else [])"
  using assms
  by (cases wpr)
     (simp_all add: readyListener_def checkPreReady_Some checkReady_Some
        onPreReadyElement_Some onReadyElement_Some triggered_onPreReady triggered_onReady)

lemma errorListener_Some:
  assumes "i < length (elementInfos m)"
  shows "\<exists>m' new. errorListener i t m = Some m' \<and>
           elementInfos m' = (elementInfos m)[i := (elementInfos m ! i)\<lparr>hasError := True\<rparr>] \<and>
           preReadyCount m' = preReadyCount m \<and>
           readyCount m' = readyCount m \<and>
           totalCount m' = totalCount m \<and>
           totalErrorCount m' = totalErrorCount m + 1 \<and>
           triggered m' = triggered m @ new \<and>
           milestones new = []"
  using assms by (simp add: errorListener_def onError_Some)

section \<open>The invariant of a batch in flight\<close>

lemma emissions_simps [simp]:
  "emissions i [] = []"
  "emissions i (xs @ ys) = emissions i xs @ emissions i ys"
  "emissions i (SigError j t # xs) = emissions i xs"
  "emissions i (SigPreReady j hl # xs) =
     (if j = i then PreReadyEmitted # emissions i xs else emissions i xs)"
  "emissions i (SigReady j w hl # xs) =
     (if j = i then ReadyEmitted w # emissions i xs else emissions i xs)"
  by (simp_all add: emissions_def List.map_filter_def)

lemma protocol_index:
  "loaderProtocol n (p @ s # r) \<Longrightarrow> sigIndex s < n"
  by (simp add: loaderProtocol_def)

lemma protocol_emissions:
  "loaderProtocol n sigs \<Longrightarrow> i < n \<Longrightarrow>
   emissions i sigs = [PreReadyEmitted, ReadyEmitted False] \<or> emissions i sigs = [ReadyEmitted True]"
  by (simp add: loaderProtocol_def list_all_iff)

lemma protocol_before_preReady:
  assumes "loaderProtocol n (p @ SigPreReady i hl # r)"
  shows "i < n \<and> emissions i p = []"
proof -
  have i: "i < n" using protocol_index [OF assms] by (simp add: sigIndex_def)
  from protocol_emissions [OF assms i] show ?thesis using i
    by (cases "emissions i p") (auto simp: append_eq_Cons_conv Cons_eq_append_conv)
qed

lemma protocol_before_ready_with:
  assumes "loaderProtocol n (p @ SigReady i True hl # r)"
  shows "i < n \<and> emissions i p = []"
proof -
  have i: "i < n" using protocol_index [OF assms] by (simp add: sigIndex_def)
  from protocol_emissions [OF assms i] show ?thesis using i
    by (cases "emissions i p") (auto simp: append_eq_Cons_conv Cons_eq_append_conv)
qed

lemma protocol_before_ready_without:
  assumes "loaderProtocol n (p @ SigReady i False hl # r)"
  shows "i < n \<and> emissions i p = [PreReadyEmitted]"
proof -
  have i: "i < n" using protocol_index [OF assms] by (simp add: sigIndex_def)
  from protocol_emissions [OF assms i] show ?thesis using i
    by (cases "emissions i p") (auto simp: append_eq_Cons_conv Cons_eq_append_conv)
qed

lemma protocol_all_ready:
  assumes "loaderProtocol n sigs"
  shows "readyReported n sigs = {..<n}"
proof -
  have "\<exists>w. ReadyEmitted w \<in> set (emissions i sigs)" if "i < n" for i
    using protocol_emissions [OF assms that] by auto
  then show ?thesis by (auto simp: readyReported_def)
qed

lemma reported_subset:
  "readyReported n p \<subseteq> preReported n p" "preReported n p \<subseteq> {..<n}"
  by (auto simp: readyReported_def preReported_def)

lemma reported_finite [simp]: "finite (preReported n p)" "finite (readyReported n p)"
  by (simp_all add: preReported_def readyReported_def)

lemma reported_snoc_error [simp]:
  "preReported n (p @ [SigError i t]) = preReported n p"
  "readyReported n (p @ [SigError i t]) = readyReported n p"
  by (simp_all add: preReported_def readyReported_def)

lemma reported_snoc_preReady:
  "i < n \<Longrightarrow> preReported n (p @ [SigPreReady i hl]) = insert i (preReported n p)"
  "readyReported n (p @ [SigPreReady i hl]) = readyReported n p"
  by (auto simp: preReported_def readyReported_def)

lemma reported_snoc_ready:
  "i < n \<Longrightarrow> preReported n (p @ [SigReady i w hl]) = insert i (preReported n p)"
  "i < n \<Longrightarrow> readyReported n (p @ [SigReady i w hl]) = insert i (readyReported n p)"
  by (auto simp: preReported_def readyReported_def)


lemma card_less_of_missing:
  assumes "A \<subseteq> {..<n}" "i < n" "i \<notin> A"
  shows "card A < n"
proof -
  have "A \<subset> {..<n}" using assms by auto
  then have "card A < card {..<n}" by (intro psubset_card_mono) simp_all
  then show ?thesis by simp
qed

lemma card_le_bound:
  assumes "A \<subseteq> {..<n}"
  shows "card A \<le> n"
  using card_mono [of "{..<n}" A] assms by simp

lemma card_succ_le_of_between:
  assumes "B \<subseteq> A" "finite A" "i \<in> A" "i \<notin> B"
  shows "card B + 1 \<le> card A"
proof -
  have "B \<subset> A" using assms by auto
  then have "card B < card A" using assms(2) by (intro psubset_card_mono)
  then show ?thesis by simp
qed

lemma batchInv_preReady:
  assumes inv: "batchInv n k p m" and pr: "loaderProtocol n (p @ SigPreReady i hl # r)"
  shows "\<exists>m'. deliver (SigPreReady i hl) m = Some m' \<and> batchInv n k (p @ [SigPreReady i hl]) m'"
proof -
  from protocol_before_preReady [OF pr] have i: "i < n" and em: "emissions i p = []" by simp_all
  have iA: "i \<notin> preReported n p" and iB: "i \<notin> readyReported n p"
    using em by (simp_all add: preReported_def readyReported_def)
  have cA: "card (preReported n p) < n"
    using card_less_of_missing [OF reported_subset(2) i iA] .
  have cB: "card (readyReported n p) < n"
    using card_less_of_missing [OF subset_trans [OF reported_subset] i iB] .
  from inv have len: "i < length (elementInfos m)" using i by (simp add: batchInv_def)
  from preReadyListener_Some [OF len, of hl] obtain m' new where
    m': "preReadyListener i hl m = Some m'"
    and f: "elementInfos m' =
             (elementInfos m)[i := (elementInfos m ! i)\<lparr>hasLoading := hl, isPreReady := True\<rparr>]"
       "preReadyCount m' = preReadyCount m + 1" "readyCount m' = readyCount m"
       "totalCount m' = totalCount m" "triggered m' = triggered m @ new"
       "milestones new = (if totalCount m \<le> preReadyCount m + 1 then [BatchPreReady] else [])"
    by blast
  have "batchInv n k (p @ [SigPreReady i hl]) m'"
    using inv cA cB iA iB i
    by (auto simp: batchInv_def f reported_snoc_preReady)
  with m' show ?thesis by (simp add: deliver_def)
qed


lemma batchInv_ready_with:
  assumes inv: "batchInv n k p m" and pr: "loaderProtocol n (p @ SigReady i True hl # r)"
  shows "\<exists>m'. deliver (SigReady i True hl) m = Some m' \<and>
              batchInv n k (p @ [SigReady i True hl]) m'"
proof -
  from protocol_before_ready_with [OF pr] have i: "i < n" and em: "emissions i p = []"
    by simp_all
  have iA: "i \<notin> preReported n p" and iB: "i \<notin> readyReported n p"
    using em by (simp_all add: preReported_def readyReported_def)
  have cA: "card (preReported n p) < n"
    using card_less_of_missing [OF reported_subset(2) i iA] .
  have cBA: "card (readyReported n p) \<le> card (preReported n p)"
    by (intro card_mono reported_subset) simp
  from inv have len: "i < length (elementInfos m)" using i by (simp add: batchInv_def)
  from readyListener_Some [OF len, of True hl] obtain m' new where
    m': "readyListener i True hl m = Some m'"
    and f: "length (elementInfos m') = length (elementInfos m)"
       "preReadyCount m' = preReadyCount m + 1" "readyCount m' = readyCount m + 1"
       "totalCount m' = totalCount m" "triggered m' = triggered m @ new"
       "milestones new =
          (if totalCount m \<le> preReadyCount m + 1 then [BatchPreReady] else []) @
          (if totalCount m \<le> readyCount m + 1 then [BatchReady] else [])"
    by force
  have "batchInv n k (p @ [SigReady i True hl]) m'"
    using inv cA cBA iA iB i
    by (auto simp: batchInv_def f reported_snoc_ready)
  with m' show ?thesis by (simp add: deliver_def)
qed

lemma batchInv_ready_without:
  assumes inv: "batchInv n k p m" and pr: "loaderProtocol n (p @ SigReady i False hl # r)"
  shows "\<exists>m'. deliver (SigReady i False hl) m = Some m' \<and>
              batchInv n k (p @ [SigReady i False hl]) m'"
proof -
  from protocol_before_ready_without [OF pr]
  have i: "i < n" and em: "emissions i p = [PreReadyEmitted]" by simp_all
  have iA: "i \<in> preReported n p" and iB: "i \<notin> readyReported n p"
    using em i by (simp_all add: preReported_def readyReported_def)
  have cA: "card (preReported n p) \<le> n"
    using card_le_bound [OF reported_subset(2)] .
  have cBA: "card (readyReported n p) + 1 \<le> card (preReported n p)"
    using card_succ_le_of_between [OF reported_subset(1) _ iA iB] by simp
  have same: "preReported n (p @ [SigReady i False hl]) = preReported n p"
    using iA i by (auto simp: reported_snoc_ready)
  from inv have len: "i < length (elementInfos m)" using i by (simp add: batchInv_def)
  from readyListener_Some [OF len, of False hl] obtain m' new where
    m': "readyListener i False hl m = Some m'"
    and f: "length (elementInfos m') = length (elementInfos m)"
       "preReadyCount m' = preReadyCount m" "readyCount m' = readyCount m + 1"
       "totalCount m' = totalCount m" "triggered m' = triggered m @ new"
       "milestones new = (if totalCount m \<le> readyCount m + 1 then [BatchReady] else [])"
    by force
  have "batchInv n k (p @ [SigReady i False hl]) m'"
    using inv cA cBA iB i
    by (auto simp: batchInv_def f same reported_snoc_ready(2))
  with m' show ?thesis by (simp add: deliver_def)
qed

lemma batchInv_error:
  assumes inv: "batchInv n k p m" and pr: "loaderProtocol n (p @ SigError i t # r)"
  shows "\<exists>m'. deliver (SigError i t) m = Some m' \<and> batchInv n k (p @ [SigError i t]) m'"
proof -
  have i: "i < n" using protocol_index [OF pr] by (simp add: sigIndex_def)
  from inv have len: "i < length (elementInfos m)" using i by (simp add: batchInv_def)
  from errorListener_Some [OF len, of t] obtain m' new where
    m': "errorListener i t m = Some m'"
    and f: "length (elementInfos m') = length (elementInfos m)"
       "preReadyCount m' = preReadyCount m" "readyCount m' = readyCount m"
       "totalCount m' = totalCount m" "triggered m' = triggered m @ new"
       "milestones new = []"
    by force
  have "batchInv n k (p @ [SigError i t]) m'"
    using inv by (auto simp: batchInv_def f)
  with m' show ?thesis by (simp add: deliver_def)
qed

lemma batchInv_deliver:
  assumes "batchInv n k p m" "loaderProtocol n (p @ s # r)"
  shows "\<exists>m'. deliver s m = Some m' \<and> batchInv n k (p @ [s]) m'"
proof (cases s)
  case (SigError i t)
  show ?thesis using batchInv_error [of n k p m i t r] assms unfolding SigError by simp
next
  case (SigPreReady i hl)
  show ?thesis using batchInv_preReady [of n k p m i hl r] assms unfolding SigPreReady by simp
next
  case (SigReady i w hl)
  show ?thesis
  proof (cases w)
    case True
    show ?thesis
      using batchInv_ready_with [of n k p m i hl r] assms SigReady True by simp
  next
    case False
    show ?thesis
      using batchInv_ready_without [of n k p m i hl r] assms SigReady False by simp
  qed
qed

lemma batchInv_run:
  "batchInv n k p m \<Longrightarrow> loaderProtocol n (p @ r) \<Longrightarrow>
   \<exists>m'. run r m = Some m' \<and> batchInv n k (p @ r) m'"
proof (induction r arbitrary: p m)
  case Nil
  then show ?case by simp
next
  case (Cons s r)
  from batchInv_deliver [OF Cons.prems] obtain m1 where
    d: "deliver s m = Some m1" and i1: "batchInv n k (p @ [s]) m1" by blast
  from Cons.IH [OF i1] Cons.prems(2) obtain m' where
    "run r m1 = Some m'" "batchInv n k ((p @ [s]) @ r) m'" by auto
  with d show ?case by simp
qed

lemma batchInv_check:
  assumes "es \<noteq> []"
  shows "batchInv (length es) (length (triggered m)) [] (check d es m)"
  using assms
  by (simp add: batchInv_def fields_check preReported_def readyReported_def)

text \<open>
  The protocol is the assumption of the specification with two cases removed: a loader
  that emits \<^verbatim>\<open>ready\<close> with \<^verbatim>\<open>withPreReady = false\<close> and no \<^verbatim>\<open>preReady\<close>, and a loader that
  emits its \<^verbatim>\<open>preReady\<close> after its \<^verbatim>\<open>ready\<close>.
\<close>

lemma emission_length:
  "length es = count_list es PreReadyEmitted + count_list es (ReadyEmitted True)
               + count_list es (ReadyEmitted False)"
proof (induction es)
  case Nil
  then show ?case by simp
next
  case (Cons e es)
  then show ?case by (cases e) auto
qed

lemma emission_protocol_iff:
  "(es = [PreReadyEmitted, ReadyEmitted False] \<or> es = [ReadyEmitted True]) \<longleftrightarrow>
   (count_list es PreReadyEmitted \<le> 1 \<and>
    count_list es (ReadyEmitted True) + count_list es (ReadyEmitted False) = 1 \<and>
    (ReadyEmitted True \<in> set es \<longrightarrow> PreReadyEmitted \<notin> set es)) \<and>
   es \<noteq> [ReadyEmitted False] \<and> es \<noteq> [ReadyEmitted False, PreReadyEmitted]"
  (is "?L \<longleftrightarrow> ?R")
proof
  assume ?L
  then show ?R by auto
next
  assume r: ?R
  then have "length es \<le> 2" using emission_length [of es] by simp
  then consider "es = []" | a where "es = [a]" | a b where "es = [a, b]"
    by (cases es; cases "tl es"; cases "tl (tl es)") auto
  then show ?L
  proof cases
    case 1
    with r show ?thesis by simp
  next
    case 2
    with r show ?thesis by (cases a) (auto split: if_splits)
  next
    case 3
    with r show ?thesis by (cases a; cases b) (auto split: if_splits)
  qed
qed

lemma loaderProtocol_iff:
  "loaderProtocol n sigs \<longleftrightarrow>
   assumedOfLoaders n sigs \<and>
   list_all (\<lambda>i. emissions i sigs \<noteq> [ReadyEmitted False] \<and>
                 emissions i sigs \<noteq> [ReadyEmitted False, PreReadyEmitted]) [0..<n]"
  unfolding loaderProtocol_def assumedOfLoaders_def list_all_iff Let_def
  using emission_protocol_iff by blast

section \<open>What a delivered signal leaves alone\<close>

lemma deliver_None:
  "\<not> sigIndex s < length (elementInfos m) \<Longrightarrow> deliver s m = None"
  by (cases s)
     (simp_all add: deliver_def sigIndex_def errorListener_def onError_def
        preReadyListener_def readyListener_def)





section \<open>Error signals\<close>

lemma errorIndices_simps [simp]:
  "errorIndices [] = []"
  "errorIndices (SigError i t # ss) = i # errorIndices ss"
  "errorIndices (SigPreReady i hl # ss) = errorIndices ss"
  "errorIndices (SigReady i w hl # ss) = errorIndices ss"
  by (simp_all add: errorIndices_def List.map_filter_simps)

lemma deliver_errors:
  assumes "sigIndex s < length (elementInfos m)"
  shows "\<exists>m1. deliver s m = Some m1 \<and>
           length (elementInfos m1) = length (elementInfos m) \<and>
           totalErrorCount m1 = totalErrorCount m + length (errorIndices [s]) \<and>
           (\<forall>j < length (elementInfos m).
              hasError (elementInfos m1 ! j) =
                (hasError (elementInfos m ! j) \<or> j \<in> set (errorIndices [s])))"
proof (cases s)
  case (SigError i t)
  with assms errorListener_Some [of i m t] show ?thesis
    by (auto simp: deliver_def sigIndex_def nth_list_update)
next
  case (SigPreReady i hl)
  with assms preReadyListener_Some [of i m hl] show ?thesis
    by (auto simp: deliver_def sigIndex_def nth_list_update)
next
  case (SigReady i w hl)
  with assms readyListener_Some [of i m w hl] show ?thesis
    by (auto simp: deliver_def sigIndex_def nth_list_update)
qed

lemma run_errors:
  "list_all (\<lambda>s. sigIndex s < length (elementInfos m)) sigs \<Longrightarrow>
   \<exists>m'. run sigs m = Some m' \<and>
        totalErrorCount m' = totalErrorCount m + length (errorIndices sigs) \<and>
        length (elementInfos m') = length (elementInfos m) \<and>
        (\<forall>j < length (elementInfos m).
           hasError (elementInfos m' ! j) =
             (hasError (elementInfos m ! j) \<or> j \<in> set (errorIndices sigs)))"
proof (induction sigs arbitrary: m)
  case Nil
  then show ?case by simp
next
  case (Cons s sigs)
  from Cons.prems have i: "sigIndex s < length (elementInfos m)" by simp
  from deliver_errors [OF i] obtain m1 where
    d: "deliver s m = Some m1"
    and len: "length (elementInfos m1) = length (elementInfos m)"
    and f: "totalErrorCount m1 = totalErrorCount m + length (errorIndices [s])"
           "\<forall>j < length (elementInfos m).
              hasError (elementInfos m1 ! j) =
                (hasError (elementInfos m ! j) \<or> j \<in> set (errorIndices [s]))"
    by blast
  have "list_all (\<lambda>s. sigIndex s < length (elementInfos m1)) sigs"
    using Cons.prems by (simp add: len)
  from Cons.IH [OF this] obtain m' where
    r: "run sigs m1 = Some m'"
    and g: "totalErrorCount m' = totalErrorCount m1 + length (errorIndices sigs)"
           "length (elementInfos m') = length (elementInfos m1)"
           "\<forall>j < length (elementInfos m1).
              hasError (elementInfos m' ! j) =
                (hasError (elementInfos m1 ! j) \<or> j \<in> set (errorIndices sigs))"
    by blast
  have c: "errorIndices (s # sigs) = errorIndices [s] @ errorIndices sigs"
    by (cases s) simp_all
  have "run (s # sigs) m = Some m'" using d r by simp
  moreover have "\<forall>j < length (elementInfos m).
           hasError (elementInfos m' ! j) =
             (hasError (elementInfos m ! j) \<or> j \<in> set (errorIndices (s # sigs)))"
    using g(3) f(2) by (auto simp: len c)
  ultimately show ?case using g(1,2) f(1) len by (simp add: c)
qed

lemma errorIndices_bound:
  "list_all (\<lambda>s. sigIndex s < n) sigs \<Longrightarrow> j \<in> set (errorIndices sigs) \<Longrightarrow> j < n"
proof (induction sigs)
  case Nil
  then show ?case by simp
next
  case (Cons s sigs)
  then show ?case by (cases s) (auto simp: sigIndex_def)
qed

lemma getErrorCount_card:
  "getErrorCount m = card {j. j < length (elementInfos m) \<and> hasError (elementInfos m ! j)}"
  by (simp add: getErrorCount_def length_filter_conv_card)

lemma check_no_errors:
  "j < length es \<Longrightarrow> \<not> hasError (elementInfos (check d es m) ! j)"
  by (simp add: elementInfos_check)

section \<open>The wiring of a container loader\<close>

lemma listenersFor_simps [simp]:
  "listenersFor name [] = []"
  "listenersFor name ((k, h) # ls) = (if k = name then h # listenersFor name ls else listenersFor name ls)"
  "listenersFor name (xs @ ys) = listenersFor name xs @ listenersFor name ys"
  by (simp_all add: listenersFor_def)

lemma options_ImReadyManager:
  "options (ImReadyManager (Some (loaders (options m))) (Some (prefix (options m))) :: 'a manager)
     = options m"
  by (simp add: ImReadyManager_def)

lemma fields_on [simp]:
  "listeners (on name h m) = listeners m @ [(name, h)]"
  "options (on name h m) = options m"
  "elementInfos (on name h m) = elementInfos m"
  "totalCount (on name h m) = totalCount m"
  "triggered (on name h m) = triggered m"
  by (simp_all add: on_def)

lemma listeners_ImReadyManager [simp]: "listeners (ImReadyManager ls p) = []"
  by (simp add: ImReadyManager_def)

lemma getLoader_Custom:
  "lookupLoader (loaders (options m)) (toLowerCase (tagName d el)) \<noteq> Undefined \<Longrightarrow>
   getLoader d m el pfx = Custom (CustomLoader (toLowerCase (tagName d el)) el pfx)"
  by (simp add: getLoader_def truthy_def Let_def)

lemma getLoader_Container:
  "lookupLoader (loaders (options m)) (toLowerCase (tagName d el)) = Undefined \<Longrightarrow>
   getLoader d m el pfx =
     Container
       \<lparr> containerLoader = ElementLoader el pfx,
         methodCalls = [SetHasLoading (list_ex (hasLoadingAttribute d)
                          (querySelectorAll d el (join '', '' (loaders (options m)))))],
         loaderListeners = [(''requestChildren'', RequestChildren),
                            (''reqeustReadyChildren'', ReqeustReadyChildren),
                            (''requestDestroy'', RequestDestroy)],
         capturedElement = el,
         capturedTags = loaders (options m),
         capturedPrefix = prefix (options m),
         children = querySelectorAll d el (join '', '' (loaders (options m))),
         withPreReady = False,
         childrenImReady = on ''ready'' ChildReady (on ''error'' ChildError (clone m)) \<rparr>"
  by (simp add: getLoader_def truthy_def Let_def)

lemma loaderTrigger_wired:
  assumes "loaderListeners c = [(''requestChildren'', RequestChildren),
                                (''reqeustReadyChildren'', ReqeustReadyChildren),
                                (''requestDestroy'', RequestDestroy)]"
  shows "loaderTrigger d ''requestChildren'' c =
           c\<lparr>childrenImReady :=
               on ''preReady'' ChildPreReady
                 (check d (getContentElements d (capturedElement c) (capturedTags c)
                             (capturedPrefix c))
                    (childrenImReady c))\<rparr>"
    and "loaderTrigger d ''reqeustReadyChildren'' c =
           c\<lparr>childrenImReady := check d (children c) (childrenImReady c)\<rparr>"
    and "loaderTrigger d ''requestDestroy'' c =
           c\<lparr>childrenImReady := destroy (childrenImReady c)\<rparr>"
    and "name \<notin> {''requestChildren'', ''reqeustReadyChildren'', ''requestDestroy''} \<Longrightarrow>
         loaderTrigger d name c = c"
  using assms by (auto simp: loaderTrigger_def runLoaderHandler_def Let_def)

lemma forward_error:
  assumes "listenersFor ''error'' (listeners (childrenImReady c)) = [ChildError]"
  shows "forward (EvError e i t n k) c = c\<lparr>methodCalls := methodCalls c @ [OnError t]\<rparr>"
  using assms by (simp add: forward_def eventName_def runChildHandler_def)

lemma forward_ready:
  assumes "listenersFor ''ready'' (listeners (childrenImReady c)) = [ChildReady]"
  shows "forward (EvReady a b k) c =
           c\<lparr>methodCalls := methodCalls c @ [OnReady (withPreReady c)]\<rparr>"
  using assms by (simp add: forward_def eventName_def runChildHandler_def)

lemma forward_preReady:
  assumes "listenersFor ''preReady'' (listeners (childrenImReady c)) = [ChildPreReady]"
  shows "forward (EvPreReady rc tc r hl) c =
           (if r then c\<lparr>withPreReady := True\<rparr>
            else c\<lparr>withPreReady := False, methodCalls := methodCalls c @ [OnPreReady]\<rparr>)"
  using assms by (simp add: forward_def eventName_def runChildHandler_def Let_def)

lemma forward_unheard:
  assumes "listenersFor (eventName ev) (listeners (childrenImReady c)) = []"
  shows "forward ev c = c"
  using assms by (simp add: forward_def)

lemma toLowerCase_tags:
  "toLowerCase ''IMG'' = ''img''"
  "toLowerCase ''DIV'' = ''div''"
  "toLowerCase ''CONSTRUCTOR'' = ''constructor''"
  by (simp_all add: toLowerCase_def)

text \<open>The definitions that evaluate a run on a concrete batch.\<close>

lemmas eval_defs =
  check_def clear_def imReady_def ImReadyManager_def deliver_def errorListener_def onError_def
  readyListener_def preReadyListener_def checkReady_def checkPreReady_def
  onReadyElement_def onPreReadyElement_def onPreReady_def onReady_def trigger_def
  getLoader_def lookupLoader_def objectPrototypeKeys_def truthy_def loaderOf_def imgDom_def
  toLowerCase_tags destroyCalls_def Let_def
  isPreReadyM_def isReadyM_def getErrorCount_def hasLoadingM_def

lemmas wiring_defs =
  getLoader_def lookupLoader_def objectPrototypeKeys_def truthy_def containerOf_def loaderOf_def
  toLowerCase_tags tagDom_def constructorDom_def
  imReady_def ImReadyManager_def clone_def on_def off_def loaderTrigger_def runLoaderHandler_def
  forward_def runChildHandler_def eventName_def childSignals_def Let_def

text \<open>
  A container whose two images report through the nested manager: towards its own manager
  it makes the calls of one loader.
\<close>

lemma container_as_one_loader:
  "map_option methodCalls
     (Option.bind
        (map_option (loaderTrigger tagDom ''requestChildren'')
           (containerOf (getLoader tagDom imReady 3 ''data-'')))
        (childSignals [SigReady 0 True False, SigReady 1 True False]))
     = Some [SetHasLoading False, OnReady True]"
  "map_option methodCalls
     (Option.bind
        (map_option (loaderTrigger tagDom ''requestChildren'')
           (containerOf (getLoader tagDom imReady 3 ''data-'')))
        (childSignals [SigPreReady 0 False, SigPreReady 1 False, SigReady 0 False False,
                       SigError 1 2, SigReady 1 False False]))
     = Some [SetHasLoading False, OnPreReady, OnError 2, OnReady False]"
  by (simp_all add: eval_defs wiring_defs)

section \<open>The claims\<close>

subsection \<open>C1: the batch preReady event\<close>

text \<open>
  C1, as amended.  Take any manager, call \<^verbatim>\<open>check\<close> with a non-empty batch, and let the
  loaders of that batch then deliver their signals in any interleaving, where every loader
  either emits \<^verbatim>\<open>preReady\<close> and later \<^verbatim>\<open>ready\<close> with \<^verbatim>\<open>withPreReady = false\<close>, or emits only
  \<^verbatim>\<open>ready\<close> with \<^verbatim>\<open>withPreReady = true\<close>, and may emit \<^verbatim>\<open>error\<close> at any time.  Then no
  listener throws, and among the events triggered since the call the batch \<^verbatim>\<open>preReady\<close>
  occurs exactly once, the batch \<^verbatim>\<open>ready\<close> occurs exactly once, and \<^verbatim>\<open>preReady\<close> comes
  first; when one \<^verbatim>\<open>ready\<close> listener triggers both, \<^verbatim>\<open>onPreReady\<close> runs before \<^verbatim>\<open>onReady\<close>.
  The run consists of the signals of the batch only: no other call of \<^verbatim>\<open>check\<close>,
  \<^verbatim>\<open>clear\<close> or \<^verbatim>\<open>destroy\<close> and no callback of an earlier empty batch intervenes.
\<close>

theorem batch_preReady_once_before_ready:
  assumes "es \<noteq> []" and "loaderProtocol (length es) sigs"
  shows "\<exists>m'. run sigs (check d es m) = Some m' \<and>
              milestones (drop (length (triggered m)) (triggered m')) =
                [BatchPreReady, BatchReady]"
proof -
  from batchInv_run [OF batchInv_check [OF assms(1)], of sigs d m] assms(2)
  obtain m' where r: "run sigs (check d es m) = Some m'"
    and inv: "batchInv (length es) (length (triggered m)) sigs m'" by auto
  from inv protocol_all_ready [OF assms(2)] r show ?thesis
    by (simp add: batchInv_def)
qed

text \<open>
  The theorem at a batch of two: the loader of index 1 emits \<^verbatim>\<open>preReady\<close>, an error and
  \<^verbatim>\<open>ready\<close>, the loader of index 0 emits \<^verbatim>\<open>ready\<close> with \<^verbatim>\<open>withPreReady = true\<close> in between.
\<close>

theorem batch_preReady_once_before_ready_witness:
  "[7, 8] \<noteq> ([] :: nat list) \<and>
   loaderProtocol (length [7, 8 :: nat])
     [SigPreReady 1 False, SigError 1 (8 :: nat), SigReady 0 True False, SigReady 1 False False] \<and>
   map_option (\<lambda>m'. milestones (drop (length (triggered imReady))
                                   (triggered m')))
     (run [SigPreReady 1 False, SigError 1 8, SigReady 0 True False, SigReady 1 False False]
        (check imgDom [7, 8] imReady))
     = Some [BatchPreReady, BatchReady]"
proof -
  have p: "loaderProtocol (length [7, 8 :: nat])
     [SigPreReady 1 False, SigError 1 (8 :: nat), SigReady 0 True False, SigReady 1 False False]"
    by (simp add: loaderProtocol_def sigIndex_def upt_rec)
  have e: "[7, 8] \<noteq> ([] :: nat list)" by simp
  from batch_preReady_once_before_ready [OF e p, of imgDom imReady]
  obtain m' where
    "run [SigPreReady 1 False, SigError 1 8, SigReady 0 True False, SigReady 1 False False]
       (check imgDom [7, 8] imReady) = Some m'"
    "milestones (drop (length (triggered imReady))
                   (triggered m')) = [BatchPreReady, BatchReady]"
    by blast
  with p show ?thesis by simp
qed

text \<open>
  C1 as the specification words its assumption fails.  A loader that emits only \<^verbatim>\<open>ready\<close>
  with \<^verbatim>\<open>withPreReady = false\<close> meets the assumption, and the batch \<^verbatim>\<open>preReady\<close> is never
  triggered; a loader that emits \<^verbatim>\<open>preReady\<close> after such a \<^verbatim>\<open>ready\<close> meets it too, and the
  batch \<^verbatim>\<open>preReady\<close> is triggered after the batch \<^verbatim>\<open>ready\<close>.
\<close>

theorem assumedOfLoaders_counterexample:
  "assumedOfLoaders (length [7 :: nat]) [SigReady 0 False False :: nat signal] \<and>
   map_option (milestones \<circ> triggered)
     (run [SigReady 0 False False] (check imgDom [7] imReady))
     = Some [BatchReady] \<and>
   assumedOfLoaders (length [7 :: nat]) [SigReady 0 False False, SigPreReady 0 False :: nat signal] \<and>
   map_option (milestones \<circ> triggered)
     (run [SigReady 0 False False, SigPreReady 0 False] (check imgDom [7] imReady))
     = Some [BatchReady, BatchPreReady]"
  by (simp add: assumedOfLoaders_def sigIndex_def eval_defs)

subsection \<open>C2: checkPreReady and checkReady\<close>

text \<open>
  C2, as amended.  For an index \<open>i\<close> of the current batch, \<^verbatim>\<open>checkPreReady(i)\<close> does not
  throw, sets \<^verbatim>\<open>elementInfos[i].isPreReady\<close>, adds one to \<^verbatim>\<open>preReadyCount\<close>, leaves
  \<^verbatim>\<open>totalCount\<close> alone, and returns true exactly when the counter is now at least
  \<^verbatim>\<open>totalCount\<close>; when the counter was below \<^verbatim>\<open>totalCount\<close> before the call, that is exactly
  when it now equals \<^verbatim>\<open>totalCount\<close>.  \<^verbatim>\<open>checkReady(i)\<close> does the same with \<^verbatim>\<open>isReady\<close> and
  \<^verbatim>\<open>readyCount\<close>.
\<close>

theorem checkPreReady_checkReady_bookkeeping:
  assumes "i < length (elementInfos m)"
  shows "(\<exists>r m'. checkPreReady i m = Some (r, m') \<and>
            isPreReady (elementInfos m' ! i) \<and>
            preReadyCount m' = preReadyCount m + 1 \<and>
            totalCount m' = totalCount m \<and>
            (r \<longleftrightarrow> totalCount m' \<le> preReadyCount m') \<and>
            (preReadyCount m < totalCount m \<longrightarrow> (r \<longleftrightarrow> preReadyCount m' = totalCount m'))) \<and>
         (\<exists>r m'. checkReady i m = Some (r, m') \<and>
            isReady (elementInfos m' ! i) \<and>
            readyCount m' = readyCount m + 1 \<and>
            totalCount m' = totalCount m \<and>
            (r \<longleftrightarrow> totalCount m' \<le> readyCount m') \<and>
            (readyCount m < totalCount m \<longrightarrow> (r \<longleftrightarrow> readyCount m' = totalCount m')))"
  using assms by (auto simp: checkPreReady_Some checkReady_Some)

text \<open>The theorem at index 0 of a fresh batch of one element.\<close>

theorem checkPreReady_checkReady_bookkeeping_witness:
  "0 < length (elementInfos (check imgDom [7] imReady)) \<and>
   map_option (\<lambda>(r, m'). (r, isPreReady (elementInfos m' ! 0), preReadyCount m', totalCount m'))
     (checkPreReady 0 (check imgDom [7] imReady)) = Some (True, True, 1, 1) \<and>
   map_option (\<lambda>(r, m'). (r, isReady (elementInfos m' ! 0), readyCount m', totalCount m'))
     (checkReady 0 (check imgDom [7] imReady)) = Some (True, True, 1, 1)"
proof -
  let ?M = "check imgDom [7] imReady :: nat manager"
  have h: "0 < length (elementInfos ?M)" by (simp add: fields_check)
  have c: "preReadyCount ?M = 0" "readyCount ?M = 0" "totalCount ?M = 1"
    by (simp_all add: fields_check)
  from checkPreReady_checkReady_bookkeeping [OF h] c h show ?thesis by auto
qed

text \<open>
  C2 as stated fails: in a batch of one element whose loader has emitted \<^verbatim>\<open>preReady\<close>
  once, a second \<^verbatim>\<open>checkPreReady(0)\<close> returns true with the counter at 2 and
  \<^verbatim>\<open>totalCount\<close> at 1.
\<close>

theorem checkPreReady_equality_counterexample:
  "map_option (apsnd preReadyCount)
     (Option.bind (preReadyListener 0 False (check imgDom [7] imReady))
                  (checkPreReady 0))
   = Some (True, 2) \<and>
   map_option (totalCount \<circ> snd)
     (Option.bind (preReadyListener 0 False (check imgDom [7] imReady))
                  (checkPreReady 0))
   = Some 1"
  by (simp add: eval_defs)

subsection \<open>C9: the counters are not guarded by the flags\<close>

text \<open>
  C9.  For an index of the current batch, \<^verbatim>\<open>checkPreReady\<close> and \<^verbatim>\<open>checkReady\<close> add one to
  their counter whatever the flag of the entry was, and return true whenever the counter
  is then at least \<^verbatim>\<open>totalCount\<close>.  So when the \<^verbatim>\<open>preReady\<close> listener of index 0 runs twice
  in a batch of two, the counter is 2, one entry is flagged, the batch \<^verbatim>\<open>preReady\<close> has
  been triggered and \<^verbatim>\<open>isPreReady()\<close> is false; the same holds for \<^verbatim>\<open>ready\<close>; and in a batch
  of one the batch \<^verbatim>\<open>preReady\<close> is triggered twice.
\<close>

theorem counters_increment_unconditionally:
  assumes "i < length (elementInfos m)"
  shows "map_option (\<lambda>(r, m'). (r, preReadyCount m')) (checkPreReady i m) =
           Some (totalCount m \<le> preReadyCount m + 1, preReadyCount m + 1) \<and>
         map_option (\<lambda>(r, m'). (r, readyCount m')) (checkReady i m) =
           Some (totalCount m \<le> readyCount m + 1, readyCount m + 1) \<and>
         map_option (\<lambda>m'. (preReadyCount m', length (filter isPreReady (elementInfos m')),
                           milestones (triggered m'), isPreReadyM m'))
           (run [SigPreReady 0 False, SigPreReady 0 False]
              (check imgDom [7, 8] imReady))
           = Some (2, 1, [BatchPreReady], False) \<and>
         map_option (\<lambda>m'. (readyCount m', length (filter isReady (elementInfos m')),
                           milestones (triggered m'), isReadyM m'))
           (run [SigReady 0 False False, SigReady 0 False False]
              (check imgDom [7, 8] imReady))
           = Some (2, 1, [BatchReady], False) \<and>
         map_option (\<lambda>m'. milestones (triggered m'))
           (run [SigPreReady 0 False, SigPreReady 0 False]
              (check imgDom [7] imReady))
           = Some [BatchPreReady, BatchPreReady]"
proof -
  have a: "map_option (\<lambda>(r, m'). (r, preReadyCount m')) (checkPreReady i m) =
           Some (totalCount m \<le> preReadyCount m + 1, preReadyCount m + 1)"
    using assms by (simp add: checkPreReady_Some)
  have b: "map_option (\<lambda>(r, m'). (r, readyCount m')) (checkReady i m) =
           Some (totalCount m \<le> readyCount m + 1, readyCount m + 1)"
    using assms by (simp add: checkReady_Some)
  have c: "map_option (\<lambda>m'. (preReadyCount m', length (filter isPreReady (elementInfos m')),
                           milestones (triggered m'), isPreReadyM m'))
           (run [SigPreReady 0 False, SigPreReady 0 False]
              (check imgDom [7, 8] imReady))
           = Some (2, 1, [BatchPreReady], False)"
    by (simp add: eval_defs)
  have d: "map_option (\<lambda>m'. (readyCount m', length (filter isReady (elementInfos m')),
                           milestones (triggered m'), isReadyM m'))
           (run [SigReady 0 False False, SigReady 0 False False]
              (check imgDom [7, 8] imReady))
           = Some (2, 1, [BatchReady], False)"
    by (simp add: eval_defs)
  have e: "map_option (\<lambda>m'. milestones (triggered m'))
           (run [SigPreReady 0 False, SigPreReady 0 False]
              (check imgDom [7] imReady))
           = Some [BatchPreReady, BatchPreReady]"
    by (simp add: eval_defs)
  from a b c d e show ?thesis by blast
qed

text \<open>
  The theorem at index 0 of a batch of one whose flag \<^verbatim>\<open>isPreReady\<close> is already set: the
  counter goes from 1 to 2.
\<close>

theorem counters_increment_unconditionally_witness:
  "map_option (\<lambda>m. (0 < length (elementInfos m), isPreReady (elementInfos m ! 0),
                     preReadyCount m, totalCount m,
                     map_option (\<lambda>(r, m'). (r, preReadyCount m')) (checkPreReady 0 m)))
     (run [SigPreReady 0 False] (check imgDom [7] imReady))
   = Some (True, True, 1, 1, Some (True, 2))"
proof -
  have "\<exists>m. run [SigPreReady 0 False] (check imgDom [7] imReady) = Some m \<and>
             length (elementInfos m) = 1 \<and> isPreReady (elementInfos m ! 0) \<and>
             preReadyCount m = 1 \<and> totalCount m = 1"
    by (simp add: eval_defs)
  then obtain m where
    r: "run [SigPreReady 0 False] (check imgDom [7] imReady) = Some m"
    and f: "length (elementInfos m) = 1" "isPreReady (elementInfos m ! 0)"
           "preReadyCount m = 1" "totalCount m = 1"
    by blast
  have h: "0 < length (elementInfos m)" using f by simp
  have k: "map_option (\<lambda>(r, m'). (r, preReadyCount m')) (checkPreReady 0 m) =
           Some (totalCount m \<le> preReadyCount m + 1, preReadyCount m + 1)"
    using counters_increment_unconditionally [OF h] by (rule conjunct1)
  from k r f h show ?thesis by (auto simp del: run.simps)
qed

subsection \<open>C8: isPreReady() and isReady()\<close>

text \<open>
  C8.  \<^verbatim>\<open>isPreReady()\<close> is true exactly when every entry of the array has \<^verbatim>\<open>isPreReady\<close>,
  and \<^verbatim>\<open>isReady()\<close> exactly when every entry has \<^verbatim>\<open>isReady\<close>.  Both read the array and
  nothing else: two managers with the same array give the same answers, whatever their
  counters and \<^verbatim>\<open>isPreReadyOver\<close> are.  In the middle of a batch they follow the array: after
  the \<^verbatim>\<open>preReady\<close> (\<^verbatim>\<open>ready\<close>) listener of index \<open>i\<close> has run, \<^verbatim>\<open>isPreReady()\<close> (\<^verbatim>\<open>isReady()\<close>)
  is true exactly when every other entry had the flag.
\<close>

theorem isPreReady_isReady_recomputed:
  "(isPreReadyM m \<longleftrightarrow> (\<forall>info \<in> set (elementInfos m). isPreReady info)) \<and>
   (isReadyM m \<longleftrightarrow> (\<forall>info \<in> set (elementInfos m). isReady info)) \<and>
   (elementInfos m' = elementInfos m \<longrightarrow>
      isPreReadyM m' = isPreReadyM m \<and> isReadyM m' = isReadyM m) \<and>
   (i < length (elementInfos m) \<longrightarrow>
      (\<exists>m1. deliver (SigPreReady i hl) m = Some m1 \<and>
         (isPreReadyM m1 \<longleftrightarrow>
            (\<forall>j < length (elementInfos m). j \<noteq> i \<longrightarrow> isPreReady (elementInfos m ! j)))) \<and>
      (\<exists>m2. deliver (SigReady i wpr hl) m = Some m2 \<and>
         (isReadyM m2 \<longleftrightarrow>
            (\<forall>j < length (elementInfos m). j \<noteq> i \<longrightarrow> isReady (elementInfos m ! j)))))"
proof -
  have a: "isPreReadyM m \<longleftrightarrow> (\<forall>info \<in> set (elementInfos m). isPreReady info)"
    by (simp add: isPreReadyM_def list_all_iff)
  have b: "isReadyM m \<longleftrightarrow> (\<forall>info \<in> set (elementInfos m). isReady info)"
    by (simp add: isReadyM_def list_all_iff)
  have c: "elementInfos m' = elementInfos m \<longrightarrow>
      isPreReadyM m' = isPreReadyM m \<and> isReadyM m' = isReadyM m"
    by (simp add: isPreReadyM_def isReadyM_def)
  have d: "\<exists>m1. deliver (SigPreReady i hl) m = Some m1 \<and>
         (isPreReadyM m1 \<longleftrightarrow>
            (\<forall>j < length (elementInfos m). j \<noteq> i \<longrightarrow> isPreReady (elementInfos m ! j)))"
    if i: "i < length (elementInfos m)"
  proof -
    from preReadyListener_Some [OF i, of hl] obtain m1 where
      m1: "preReadyListener i hl m = Some m1"
      and e: "elementInfos m1 =
        (elementInfos m)[i := (elementInfos m ! i)\<lparr>hasLoading := hl, isPreReady := True\<rparr>]"
      by blast
    have "isPreReadyM m1 \<longleftrightarrow>
            (\<forall>j < length (elementInfos m). j \<noteq> i \<longrightarrow> isPreReady (elementInfos m ! j))"
      using i by (auto simp: isPreReadyM_def e list_all_length nth_list_update)
    with m1 show ?thesis by (simp add: deliver_def)
  qed
  have e: "\<exists>m2. deliver (SigReady i wpr hl) m = Some m2 \<and>
         (isReadyM m2 \<longleftrightarrow>
            (\<forall>j < length (elementInfos m). j \<noteq> i \<longrightarrow> isReady (elementInfos m ! j)))"
    if i: "i < length (elementInfos m)"
  proof -
    from readyListener_Some [OF i, of wpr hl] obtain m2 where
      m2: "readyListener i wpr hl m = Some m2"
      and e: "elementInfos m2 =
        (elementInfos m)[i := (elementInfos m ! i)
                \<lparr>hasLoading := hl, isPreReady := (wpr \<or> isPreReady (elementInfos m ! i)),
                 isReady := True\<rparr>]"
      by blast
    have "isReadyM m2 \<longleftrightarrow>
            (\<forall>j < length (elementInfos m). j \<noteq> i \<longrightarrow> isReady (elementInfos m ! j))"
      using i by (auto simp: isReadyM_def e list_all_length nth_list_update)
    with m2 show ?thesis by (simp add: deliver_def)
  qed
  from a b c d e show ?thesis by blast
qed

text \<open>
  The theorem in the middle of a batch of two: after the loader of index 0 has reported,
  both queries still answer false.
\<close>

theorem isPreReady_isReady_recomputed_witness:
  "\<not> isPreReadyM (check imgDom [7, 8] imReady) \<and>
   0 < length (elementInfos (check imgDom [7, 8] imReady)) \<and>
   map_option isPreReadyM
     (deliver (SigPreReady 0 False) (check imgDom [7, 8] imReady))
     = Some False \<and>
   map_option isReadyM
     (deliver (SigReady 0 True False) (check imgDom [7, 8] imReady))
     = Some False"
proof -
  let ?M = "check imgDom [7, 8] imReady :: nat manager"
  have e: "elementInfos ?M =
    [\<lparr>loader = Some (CustomLoader ''img'' 7 ''data-''), element = 7, hasLoading = False,
       hasError = False, isPreReady = False, isReady = False\<rparr>,
     \<lparr>loader = Some (CustomLoader ''img'' 8 ''data-''), element = 8, hasLoading = False,
       hasError = False, isPreReady = False, isReady = False\<rparr>]"
    by (simp add: eval_defs)
  have n: "\<not> (\<forall>j < length (elementInfos ?M). j \<noteq> 0 \<longrightarrow> isPreReady (elementInfos ?M ! j))"
          "\<not> (\<forall>j < length (elementInfos ?M). j \<noteq> 0 \<longrightarrow> isReady (elementInfos ?M ! j))"
    unfolding e by (auto intro: exI [of _ 1])
  have h: "0 < length (elementInfos ?M)" unfolding e by simp
  from isPreReady_isReady_recomputed [of ?M ?M 0 False True] n h
  show ?thesis by (auto simp: e)
qed

subsection \<open>C10: the empty array\<close>

text \<open>
  C10.  A manager whose array is empty answers true to \<^verbatim>\<open>isPreReady()\<close> and \<^verbatim>\<open>isReady()\<close>
  while its \<^verbatim>\<open>readyCount\<close> is 0: right after construction, after \<^verbatim>\<open>clear()\<close>, after
  \<^verbatim>\<open>destroy()\<close> and after \<^verbatim>\<open>check\<close> with an empty collection.  A new manager has
  \<^verbatim>\<open>isPreReadyOver = true\<close>.
\<close>

theorem empty_array_is_ready:
  "isPreReadyM (ImReadyManager ls p :: 'e manager) \<and>
   isReadyM (ImReadyManager ls p :: 'e manager) \<and>
   isPreReadyOver (ImReadyManager ls p :: 'e manager) \<and>
   preReadyCount (ImReadyManager ls p :: 'e manager) = 0 \<and>
   readyCount (ImReadyManager ls p :: 'e manager) = 0 \<and>
   isPreReadyM (clear m) \<and> isReadyM (clear m) \<and> readyCount (clear m) = 0 \<and>
   isPreReadyM (destroy m) \<and> isReadyM (destroy m) \<and> readyCount (destroy m) = 0 \<and>
   isPreReadyM (check d [] m) \<and> isReadyM (check d [] m) \<and> readyCount (check d [] m) = 0"
  by (simp add: isPreReadyM_def isReadyM_def ImReadyManager_def destroy_def off_def
      check_def Let_def)

subsection \<open>C6: clear and destroy\<close>

text \<open>
  C6.  \<^verbatim>\<open>clear()\<close> sets \<^verbatim>\<open>isPreReadyOver\<close> to false and the four counters to zero, calls
  \<^verbatim>\<open>destroy()\<close> on the loaders of exactly those entries whose \<^verbatim>\<open>isReady\<close> is false, in the
  order of the array, empties the array and keeps the listeners of the manager;
  \<^verbatim>\<open>destroy()\<close> is \<^verbatim>\<open>clear()\<close> followed by the removal of every listener of the manager.
\<close>

theorem clear_destroy_effects:
  "isPreReadyOver (clear m) = False \<and>
   totalCount (clear m) = 0 \<and> preReadyCount (clear m) = 0 \<and>
   readyCount (clear m) = 0 \<and> totalErrorCount (clear m) = 0 \<and>
   loaderCalls (clear m) =
     loaderCalls m @
     map (\<lambda>l. (l, Destroy))
       (List.map_filter loader (filter (\<lambda>info. \<not> isReady info) (elementInfos m))) \<and>
   elementInfos (clear m) = [] \<and>
   listeners (clear m) = listeners m \<and>
   destroy m = (clear m)\<lparr>listeners := []\<rparr>"
proof -
  have "destroyCalls xs =
        map (\<lambda>l. (l, Destroy)) (List.map_filter loader (filter (\<lambda>info. \<not> isReady info) xs))"
    for xs :: "'a ElementInfo list"
    by (induction xs) (auto simp: destroyCalls_def List.map_filter_simps split: option.splits)
  then show ?thesis by (simp add: destroy_def off_def)
qed

text \<open>
  The theorem on a batch of two in which the loader of index 0 is ready: \<^verbatim>\<open>clear()\<close>
  destroys the loader of index 1 only, and \<^verbatim>\<open>destroy()\<close> removes a listener added before.
\<close>

theorem clear_destroy_effects_witness:
  "map_option (\<lambda>m. (map isReady (elementInfos m), loaderCalls (clear m), listeners (destroy (on ''ready'' (Consumer 0) m))))
     (run [SigReady 0 True False] (check imgDom [7, 8] imReady))
   = Some ([True, False],
           [(CustomLoader ''img'' 7 ''data-'', Check), (CustomLoader ''img'' 8 ''data-'', Check),
            (CustomLoader ''img'' 8 ''data-'', Destroy)],
           [])"
proof -
  have "\<exists>m. run [SigReady 0 True False] (check imgDom [7, 8] imReady) = Some m \<and>
     loaderCalls m = [(CustomLoader ''img'' 7 ''data-'', Check), (CustomLoader ''img'' 8 ''data-'', Check)] \<and>
     map isReady (elementInfos m) = [True, False] \<and>
     List.map_filter loader (filter (\<lambda>info. \<not> isReady info) (elementInfos m)) =
       [CustomLoader ''img'' 8 ''data-'']"
    by (simp add: eval_defs List.map_filter_simps)
  then obtain m where
    r: "run [SigReady 0 True False] (check imgDom [7, 8] imReady) = Some m"
    and f: "loaderCalls m = [(CustomLoader ''img'' 7 ''data-'', Check), (CustomLoader ''img'' 8 ''data-'', Check)]"
       "map isReady (elementInfos m) = [True, False]"
       "List.map_filter loader (filter (\<lambda>info. \<not> isReady info) (elementInfos m)) =
          [CustomLoader ''img'' 8 ''data-'']"
    by (elim exE conjE) (rule that)
  from clear_destroy_effects [of m] clear_destroy_effects [of "on ''ready'' (Consumer 0) m"] r f
  show ?thesis by (simp del: run.simps)
qed

subsection \<open>C5: totalCount\<close>



subsection \<open>C3: check with an empty collection\<close>

text \<open>
  What \<^verbatim>\<open>check\<close> with an empty collection does when nothing else is called before its
  callback runs: it sets \<^verbatim>\<open>totalCount\<close> to 0, triggers nothing during the call, and hands
  one callback to \<^verbatim>\<open>setTimeout\<close>.  Run on the state the call left, the callback triggers
  the batch \<^verbatim>\<open>preReady\<close> and then the batch \<^verbatim>\<open>ready\<close>, whose payload has
  \<^verbatim>\<open>errorCount = 0\<close>, \<^verbatim>\<open>totalErrorCount = 0\<close> and \<^verbatim>\<open>totalCount = 0\<close>; with no older callback
  pending it is the next one the event loop runs.  Until then no signal of a loader changes
  the state: the array is empty, so a listener called with any index throws before it
  writes.
\<close>

lemma check_empty_collection:
  "totalCount (check d [] m) = 0 \<and>
   triggered (check d [] m) = triggered m \<and>
   timeouts (check d [] m) = timeouts m @ [EmptyBatch] \<and>
   triggered (runCallback EmptyBatch (check d [] m)) =
     triggered m @ [EvPreReady 0 0 True False, EvReady 0 0 0] \<and>
   triggered (nextTimeout (check d [] (m\<lparr>timeouts := []\<rparr>))) =
     triggered m @ [EvPreReady 0 0 True False, EvReady 0 0 0] \<and>
   timeouts (nextTimeout (check d [] (m\<lparr>timeouts := []\<rparr>))) = [] \<and>
   (\<forall>s. deliver s (check d [] m) = None)"
  by (simp add: check_def Let_def runCallback_def nextTimeout_def triggered_onReady
      triggered_onPreReady isReadyM_def hasLoadingM_def getErrorCount_def deliver_None)

text \<open>
  C3 says that the \<^verbatim>\<open>ready\<close> scheduled by \<^verbatim>\<open>check\<close> with an empty collection carries
  \<^verbatim>\<open>totalCount = 0\<close> and \<^verbatim>\<open>errorCount = 0\<close>.  The code reads the payload when the callback
  runs, and \<^verbatim>\<open>clear()\<close>, which destroys the unfinished loaders of a discarded batch, does not
  cancel the callback.  On a new manager, \<^verbatim>\<open>check\<close> with an empty collection followed by
  \<^verbatim>\<open>check\<close> with one image leaves the callback of the first call pending, no milestone
  triggered and the image not ready; the callback then triggers \<^verbatim>\<open>preReady\<close> with
  \<^verbatim>\<open>totalCount = 1\<close> and \<^verbatim>\<open>isReady = false\<close>, and \<^verbatim>\<open>ready\<close> with \<^verbatim>\<open>totalCount = 1\<close>, while the
  image is still not ready.
\<close>

theorem pending_timeout_outlives_check:
  "timeouts (check imgDom [7] (check imgDom [] imReady)) = [EmptyBatch] \<and>
   triggered (check imgDom [7] (check imgDom [] imReady)) = [] \<and>
   \<not> isReadyM (check imgDom [7] (check imgDom [] imReady)) \<and>
   triggered (nextTimeout (check imgDom [7] (check imgDom [] imReady))) =
     [EvPreReady 0 1 False False, EvReady 0 0 1] \<and>
   readyCount (nextTimeout (check imgDom [7] (check imgDom [] imReady))) = 0 \<and>
   \<not> isReadyM (nextTimeout (check imgDom [7] (check imgDom [] imReady)))"
  by (simp add: eval_defs nextTimeout_def runCallback_def)

subsection \<open>C4: errors\<close>

text \<open>
  C4.  For an index \<open>i\<close> of the current batch, \<^verbatim>\<open>onError(i, t)\<close> does not throw, sets
  \<^verbatim>\<open>elementInfos[i].hasError\<close>, adds one to \<^verbatim>\<open>totalErrorCount\<close> and triggers exactly one
  \<^verbatim>\<open>error\<close> event, whose payload carries the element, the index, the target, the number of
  entries with \<^verbatim>\<open>hasError\<close> at that moment and the new \<^verbatim>\<open>totalErrorCount\<close>.  After any
  sequence of signals delivered to a new batch, \<^verbatim>\<open>errorCount\<close> is the number of distinct
  indices among its error signals and \<^verbatim>\<open>totalErrorCount\<close> is the number of its error
  signals.
\<close>

theorem onError_counts:
  assumes "i < length (elementInfos m)"
    and "list_all (\<lambda>s. sigIndex s < length es) sigs"
  shows "(\<exists>m'. onError i t m = Some m' \<and>
            hasError (elementInfos m' ! i) \<and>
            totalErrorCount m' = totalErrorCount m + 1 \<and>
            triggered m' =
              triggered m @
              [EvError (element (elementInfos m ! i)) i t
                 (length (filter hasError (elementInfos m'))) (totalErrorCount m + 1)]) \<and>
         (\<exists>m'. run sigs (check d es m0) = Some m' \<and>
            getErrorCount m' = card (set (errorIndices sigs)) \<and>
            totalErrorCount m' = length (errorIndices sigs))"
proof -
  have a: "\<exists>m'. onError i t m = Some m' \<and>
            hasError (elementInfos m' ! i) \<and>
            totalErrorCount m' = totalErrorCount m + 1 \<and>
            triggered m' =
              triggered m @
              [EvError (element (elementInfos m ! i)) i t
                 (length (filter hasError (elementInfos m'))) (totalErrorCount m + 1)]"
    using assms(1) by (simp add: onError_Some)
  let ?M = "check d es m0"
  have "list_all (\<lambda>s. sigIndex s < length (elementInfos ?M)) sigs"
    using assms(2) by (simp add: fields_check)
  from run_errors [OF this] obtain m' where
    r: "run sigs ?M = Some m'"
    and g: "totalErrorCount m' = totalErrorCount ?M + length (errorIndices sigs)"
           "length (elementInfos m') = length (elementInfos ?M)"
           "\<forall>j < length (elementInfos ?M).
              hasError (elementInfos m' ! j) =
                (hasError (elementInfos ?M ! j) \<or> j \<in> set (errorIndices sigs))"
    by blast
  have "j < length (elementInfos m') \<and> hasError (elementInfos m' ! j) \<longleftrightarrow>
        j \<in> set (errorIndices sigs)" for j
  proof (cases "j < length es")
    case True
    then show ?thesis using g(2,3) by (simp add: fields_check check_no_errors)
  next
    case False
    then have "j \<notin> set (errorIndices sigs)" using errorIndices_bound [OF assms(2)] by blast
    with False show ?thesis using g(2) by (simp add: fields_check)
  qed
  then have "{j. j < length (elementInfos m') \<and> hasError (elementInfos m' ! j)} =
             set (errorIndices sigs)"
    by blast
  then have "getErrorCount m' = card (set (errorIndices sigs))"
    by (simp add: getErrorCount_card)
  moreover have "totalErrorCount m' = length (errorIndices sigs)"
    using g(1) by (simp add: fields_check)
  ultimately show ?thesis using a r by blast
qed

text \<open>
  The theorem on a batch of three: one call of \<^verbatim>\<open>onError\<close>, and three error signals over
  two indices with a \<^verbatim>\<open>preReady\<close> in between, after which \<^verbatim>\<open>errorCount\<close> is 2 and
  \<^verbatim>\<open>totalErrorCount\<close> is 3.
\<close>

theorem onError_counts_witness:
  "0 < length (elementInfos (check imgDom [7, 8, 9] imReady)) \<and>
   list_all (\<lambda>s. sigIndex s < length [7, 8, 9 :: nat])
     [SigError 1 8, SigPreReady 0 False, SigError 0 7, SigError 1 (8 :: nat)] \<and>
   map_option (\<lambda>m'. (hasError (elementInfos m' ! 0), totalErrorCount m', triggered m'))
     (onError 0 7 (check imgDom [7, 8, 9] imReady))
     = Some (True, 1, [EvError 7 0 7 1 1]) \<and>
   map_option (\<lambda>m'. (getErrorCount m', totalErrorCount m'))
     (run [SigError 1 8, SigPreReady 0 False, SigError 0 7, SigError 1 8]
        (check imgDom [7, 8, 9] imReady))
     = Some (2, 3)"
proof -
  let ?M = "check imgDom [7, 8, 9] imReady"
  let ?S = "[SigError 1 8, SigPreReady 0 False, SigError 0 7, SigError 1 (8 :: nat)]"
  have h: "0 < length (elementInfos ?M)" by (simp add: fields_check)
  have k: "list_all (\<lambda>s. sigIndex s < length [7, 8, 9 :: nat]) ?S"
    by (simp add: sigIndex_def)
  have c: "card (set (errorIndices ?S)) = 2" "length (errorIndices ?S) = 3"
    by (simp_all add: card_insert_if)
  have e: "element (elementInfos ?M ! 0) = 7" "totalErrorCount ?M = 0" "triggered ?M = []"
    by (simp_all add: fields_check elementInfos_check imReady_def ImReadyManager_def)
  from onError_counts [OF h k, of 7 imgDom imReady]
  obtain m1 m2 where
    a: "onError 0 7 ?M = Some m1" "hasError (elementInfos m1 ! 0)"
       "totalErrorCount m1 = totalErrorCount ?M + 1"
       "triggered m1 = triggered ?M @
          [EvError (element (elementInfos ?M ! 0)) 0 7
             (length (filter hasError (elementInfos m1))) (totalErrorCount ?M + 1)]"
    and b: "run ?S ?M = Some m2"
       "getErrorCount m2 = card (set (errorIndices ?S))"
       "totalErrorCount m2 = length (errorIndices ?S)"
    by (elim exE conjE) (rule that)
  have n: "length (filter hasError (elementInfos m1)) = 1"
    using a(1) by (auto simp: eval_defs)
  show ?thesis
    unfolding a(1) b(1) using h k a(2,3,4) b(2,3) c e n by simp
qed

subsection \<open>C7: the container wiring of getLoader\<close>

text \<open>
  C7, as amended.  For an element for which \<^verbatim>\<open>loaders[tagName]\<close> is \<^verbatim>\<open>undefined\<close>, that is
  whose lower-cased tag name is neither a key of \<^verbatim>\<open>options.loaders\<close> nor a property the
  object inherits, \<^verbatim>\<open>getLoader\<close> builds an \<^verbatim>\<open>ElementLoader\<close> and a nested manager that is a
  new manager with the options of the owner and none of its batch state, listening to its
  own \<^verbatim>\<open>error\<close> and \<^verbatim>\<open>ready\<close>.  The loader gets exactly three listeners, under the names
  \<^verbatim>\<open>requestChildren\<close>, \<^verbatim>\<open>reqeustReadyChildren\<close> (spelled so in the source) and
  \<^verbatim>\<open>requestDestroy\<close>, and a signal of any other name reaches none: the first calls \<^verbatim>\<open>check\<close>
  of the nested manager on the content elements and subscribes to its \<^verbatim>\<open>preReady\<close>, the
  second calls \<^verbatim>\<open>check\<close> on the children, the third calls \<^verbatim>\<open>destroy\<close>.  An \<^verbatim>\<open>error\<close> of the
  nested manager becomes \<^verbatim>\<open>loader.onError(target)\<close>, before and after a \<^verbatim>\<open>preReady\<close>.  A
  \<^verbatim>\<open>preReady\<close> of the nested manager is heard only after \<^verbatim>\<open>requestChildren\<close>; it stores its
  \<^verbatim>\<open>isReady\<close> in \<^verbatim>\<open>withPreReady\<close> and calls \<^verbatim>\<open>loader.onPreReady()\<close> when that is false.  A
  \<^verbatim>\<open>ready\<close> becomes \<^verbatim>\<open>loader.onReady(withPreReady)\<close> with the value stored last: false
  on the new container and after \<^verbatim>\<open>reqeustReadyChildren\<close>, and the \<^verbatim>\<open>isReady\<close> of the nested
  \<^verbatim>\<open>preReady\<close> after one was heard.
\<close>

theorem getLoader_container_wiring:
  assumes "lookupLoader (loaders (options m)) (toLowerCase (tagName d el)) = Undefined"
  shows "\<exists>c. getLoader d m el pfx = Container c \<and>
     containerLoader c = ElementLoader el pfx \<and>
     withPreReady c = False \<and>
     childrenImReady c =
       on ''ready'' ChildReady (on ''error'' ChildError
         (ImReadyManager (Some (loaders (options m))) (Some (prefix (options m))))) \<and>
     options (childrenImReady c) = options m \<and>
     map fst (loaderListeners c) =
       [''requestChildren'', ''reqeustReadyChildren'', ''requestDestroy''] \<and>
     (\<forall>name. name \<notin> {''requestChildren'', ''reqeustReadyChildren'', ''requestDestroy''} \<longrightarrow>
        loaderTrigger d name c = c) \<and>
     childrenImReady (loaderTrigger d ''requestChildren'' c) =
       on ''preReady'' ChildPreReady
         (check d (getContentElements d el (loaders (options m)) (prefix (options m)))
            (childrenImReady c)) \<and>
     childrenImReady (loaderTrigger d ''reqeustReadyChildren'' c) =
       check d (querySelectorAll d el (join '', '' (loaders (options m)))) (childrenImReady c) \<and>
     childrenImReady (loaderTrigger d ''requestDestroy'' c) = destroy (childrenImReady c) \<and>
     (\<forall>e i t n k. methodCalls (forward (EvError e i t n k) c) = methodCalls c @ [OnError t]) \<and>
     (\<forall>a b k. methodCalls (forward (EvReady a b k) c) = methodCalls c @ [OnReady False]) \<and>
     (\<forall>rc tc r hl. forward (EvPreReady rc tc r hl) c = c) \<and>
     (\<forall>a b k. methodCalls (forward (EvReady a b k) (loaderTrigger d ''reqeustReadyChildren'' c)) =
                methodCalls c @ [OnReady False]) \<and>
     (\<forall>rc tc r hl.
        forward (EvPreReady rc tc r hl) (loaderTrigger d ''reqeustReadyChildren'' c) =
          loaderTrigger d ''reqeustReadyChildren'' c) \<and>
     (\<forall>rc tc r hl.
        withPreReady (forward (EvPreReady rc tc r hl) (loaderTrigger d ''requestChildren'' c)) = r \<and>
        methodCalls (forward (EvPreReady rc tc r hl) (loaderTrigger d ''requestChildren'' c)) =
          methodCalls c @ (if r then [] else [OnPreReady])) \<and>
     (\<forall>rc tc r hl a b k.
        methodCalls (forward (EvReady a b k)
                       (forward (EvPreReady rc tc r hl) (loaderTrigger d ''requestChildren'' c))) =
          methodCalls c @ (if r then [] else [OnPreReady]) @ [OnReady r]) \<and>
     (\<forall>rc tc r hl e i t n k.
        methodCalls (forward (EvError e i t n k)
                       (forward (EvPreReady rc tc r hl) (loaderTrigger d ''requestChildren'' c))) =
          methodCalls c @ (if r then [] else [OnPreReady]) @ [OnError t])"
proof -
  define c where "c =
       \<lparr> containerLoader = ElementLoader el pfx,
         methodCalls = [SetHasLoading (list_ex (hasLoadingAttribute d)
                          (querySelectorAll d el (join '', '' (loaders (options m)))))],
         loaderListeners = [(''requestChildren'', RequestChildren),
                            (''reqeustReadyChildren'', ReqeustReadyChildren),
                            (''requestDestroy'', RequestDestroy)],
         capturedElement = el,
         capturedTags = loaders (options m),
         capturedPrefix = prefix (options m),
         children = querySelectorAll d el (join '', '' (loaders (options m))),
         withPreReady = False,
         childrenImReady = on ''ready'' ChildReady (on ''error'' ChildError (clone m)) \<rparr>"
  have g: "getLoader d m el pfx = Container c"
    unfolding c_def by (rule getLoader_Container [OF assms])
  have l: "loaderListeners c = [(''requestChildren'', RequestChildren),
                                (''reqeustReadyChildren'', ReqeustReadyChildren),
                                (''requestDestroy'', RequestDestroy)]"
    and f: "containerLoader c = ElementLoader el pfx" "capturedElement c = el"
       "capturedTags c = loaders (options m)" "capturedPrefix c = prefix (options m)"
       "children c = querySelectorAll d el (join '', '' (loaders (options m)))"
       "childrenImReady c = on ''ready'' ChildReady (on ''error'' ChildError (clone m))"
    and w: "withPreReady c = False"
    by (simp_all add: c_def)
  note t = loaderTrigger_wired [OF l, where d = d]
  define c1 where "c1 = loaderTrigger d ''requestChildren'' c"
  define c2 where "c2 = loaderTrigger d ''reqeustReadyChildren'' c"
  have o: "options (childrenImReady c) = options m"
    by (simp add: f clone_def options_ImReadyManager)
  have le: "listenersFor ''error'' (listeners (childrenImReady c)) = [ChildError]"
    and lr: "listenersFor ''ready'' (listeners (childrenImReady c)) = [ChildReady]"
    and lp: "listenersFor ''preReady'' (listeners (childrenImReady c)) = []"
    by (simp_all add: f clone_def)
  have le1: "listenersFor ''error'' (listeners (childrenImReady c1)) = [ChildError]"
    and lr1: "listenersFor ''ready'' (listeners (childrenImReady c1)) = [ChildReady]"
    and lp1: "listenersFor ''preReady'' (listeners (childrenImReady c1)) = [ChildPreReady]"
    and m1: "methodCalls c1 = methodCalls c" "withPreReady c1 = False"
    by (simp_all add: c1_def t(1) f w clone_def fields_check)
  have lr2: "listenersFor ''ready'' (listeners (childrenImReady c2)) = [ChildReady]"
    and lp2: "listenersFor ''preReady'' (listeners (childrenImReady c2)) = []"
    and m2: "methodCalls c2 = methodCalls c" "withPreReady c2 = False"
    by (simp_all add: c2_def t(2) f w clone_def fields_check)
  have p: "withPreReady (forward (EvPreReady rc tc r hl) c1) = r \<and>
        methodCalls (forward (EvPreReady rc tc r hl) c1) =
          methodCalls c @ (if r then [] else [OnPreReady])" for rc tc r hl
    by (simp add: forward_preReady [OF lp1] m1)
  have lk: "listeners (childrenImReady (forward (EvPreReady rc tc r hl) c1)) =
            listeners (childrenImReady c1)" for rc tc r hl
    by (simp add: forward_preReady [OF lp1])
  have pr: "methodCalls (forward (EvReady a b k) (forward (EvPreReady rc tc r hl) c1)) =
          methodCalls c @ (if r then [] else [OnPreReady]) @ [OnReady r]" for rc tc r hl a b k
    using p [of rc tc r hl] by (simp add: forward_ready lk lr1)
  have pe: "methodCalls (forward (EvError e i t n k) (forward (EvPreReady rc tc r hl) c1)) =
          methodCalls c @ (if r then [] else [OnPreReady]) @ [OnError t]"
    for rc tc r hl e i t n k
    using p [of rc tc r hl] by (simp add: forward_error lk le1)
  have q0: "forward (EvPreReady rc tc r hl) c = c" for rc tc r hl
    by (rule forward_unheard) (simp add: eventName_def lp)
  have q2: "forward (EvPreReady rc tc r hl) c2 = c2" for rc tc r hl
    by (rule forward_unheard) (simp add: eventName_def lp2)
  have r2: "methodCalls (forward (EvReady a b k) c2) = methodCalls c @ [OnReady False]" for a b k
    by (simp add: forward_ready [OF lr2] m2)
  have nm: "name \<notin> {''requestChildren'', ''reqeustReadyChildren'', ''requestDestroy''} \<longrightarrow>
        loaderTrigger d name c = c" for name
    using t(4) by blast
  have a1: "childrenImReady c =
       on ''ready'' ChildReady (on ''error'' ChildError
         (ImReadyManager (Some (loaders (options m))) (Some (prefix (options m)))))"
    by (simp add: f clone_def)
  have a2: "map fst (loaderListeners c) =
       [''requestChildren'', ''reqeustReadyChildren'', ''requestDestroy'']"
    by (simp add: l)
  have b1: "childrenImReady (loaderTrigger d ''requestChildren'' c) =
       on ''preReady'' ChildPreReady
         (check d (getContentElements d el (loaders (options m)) (prefix (options m)))
            (childrenImReady c))"
    by (simp add: t(1) f(2,3,4))
  have b2: "childrenImReady (loaderTrigger d ''reqeustReadyChildren'' c) =
       check d (querySelectorAll d el (join '', '' (loaders (options m)))) (childrenImReady c)"
    by (simp add: t(2) f(5))
  have b3: "childrenImReady (loaderTrigger d ''requestDestroy'' c) = destroy (childrenImReady c)"
    by (simp add: t(3))
  have e0: "methodCalls (forward (EvError e i t n k) c) = methodCalls c @ [OnError t]"
    for e i t n k
    by (simp add: forward_error [OF le])
  have r0: "methodCalls (forward (EvReady a b k) c) = methodCalls c @ [OnReady False]" for a b k
    by (simp add: forward_ready [OF lr] w)
  show ?thesis
    apply (rule exI [of _ c])
    apply (intro conjI allI)
                    apply (rule g)
                   apply (rule f(1))
                  apply (rule w)
                 apply (rule a1)
                apply (rule o)
               apply (rule a2)
              apply (rule nm)
             apply (rule b1)
            apply (rule b2)
           apply (rule b3)
          apply (rule e0)
         apply (rule r0)
        apply (rule q0)
       apply (rule r2 [unfolded c2_def])
      apply (rule q2 [unfolded c2_def])
     apply (rule p [unfolded c1_def, THEN conjunct1])
    apply (rule p [unfolded c1_def, THEN conjunct2])
    apply (rule pr [unfolded c1_def])
    apply (rule pe [unfolded c1_def])
    done
qed

text \<open>
  The theorem for a \<^verbatim>\<open>DIV\<close> with two images, under a manager with loaders for images and
  videos; a nested \<^verbatim>\<open>preReady\<close> with \<^verbatim>\<open>isReady = true\<close> makes the later call
  \<^verbatim>\<open>onReady(true)\<close>, one with \<^verbatim>\<open>isReady = false\<close> makes the calls \<^verbatim>\<open>onPreReady()\<close> and
  \<^verbatim>\<open>onReady(false)\<close>.
\<close>

theorem getLoader_container_wiring_witness:
  "lookupLoader (loaders (options imReady)) (toLowerCase (tagName tagDom 3)) = Undefined \<and>
   map_option (map fst \<circ> loaderListeners)
     (containerOf (getLoader tagDom imReady 3 ''data-''))
     = Some [''requestChildren'', ''reqeustReadyChildren'', ''requestDestroy''] \<and>
   map_option (loaderCalls \<circ> childrenImReady \<circ> loaderTrigger tagDom ''reqeustReadyChildren'')
     (containerOf (getLoader tagDom imReady 3 ''data-''))
     = Some [(CustomLoader ''img'' 1 ''data-'', Check), (CustomLoader ''img'' 2 ''data-'', Check)] \<and>
   map_option (methodCalls \<circ> forward (EvReady 0 0 2) \<circ> forward (EvPreReady 2 2 True False)
                 \<circ> loaderTrigger tagDom ''requestChildren'')
     (containerOf (getLoader tagDom imReady 3 ''data-''))
     = Some [SetHasLoading False, OnReady True] \<and>
   map_option (methodCalls \<circ> forward (EvReady 0 0 2) \<circ> forward (EvPreReady 0 2 False False)
                 \<circ> loaderTrigger tagDom ''requestChildren'')
     (containerOf (getLoader tagDom imReady 3 ''data-''))
     = Some [SetHasLoading False, OnPreReady, OnReady False]"
proof -
  have h: "lookupLoader (loaders (options imReady)) (toLowerCase (tagName tagDom 3)) = Undefined"
    by (simp add: wiring_defs)
  from getLoader_container_wiring [OF h, of "''data-''"] obtain c where
    g: "getLoader tagDom imReady 3 ''data-'' = Container c"
    and n: "childrenImReady c =
       on ''ready'' ChildReady (on ''error'' ChildError
         (ImReadyManager (Some (loaders (options imReady))) (Some (prefix (options imReady)))))"
    and l: "map fst (loaderListeners c) =
       [''requestChildren'', ''reqeustReadyChildren'', ''requestDestroy'']"
    and r: "childrenImReady (loaderTrigger tagDom ''reqeustReadyChildren'' c) =
       check tagDom (querySelectorAll tagDom 3 (join '', '' (loaders (options imReady))))
         (childrenImReady c)"
    and pr: "\<forall>rc tc r hl a b k.
        methodCalls (forward (EvReady a b k)
                       (forward (EvPreReady rc tc r hl) (loaderTrigger tagDom ''requestChildren'' c))) =
          methodCalls c @ (if r then [] else [OnPreReady]) @ [OnReady r]"
    by (elim exE conjE) (rule that)
  have "map_option methodCalls (containerOf (getLoader tagDom imReady 3 ''data-''))
          = Some [SetHasLoading False]"
    by (simp add: wiring_defs)
  then have mc: "methodCalls c = [SetHasLoading False]"
    by (simp add: g containerOf_def)
  have lc: "loaderCalls (childrenImReady (loaderTrigger tagDom ''reqeustReadyChildren'' c)) =
        [(CustomLoader ''img'' 1 ''data-'', Check), (CustomLoader ''img'' 2 ''data-'', Check)]"
    unfolding r n by (simp add: eval_defs wiring_defs)
  have p1: "methodCalls (forward (EvReady 0 0 2)
              (forward (EvPreReady 2 2 True False) (loaderTrigger tagDom ''requestChildren'' c)))
            = [SetHasLoading False, OnReady True]"
    using pr by (simp add: mc)
  have p2: "methodCalls (forward (EvReady 0 0 2)
              (forward (EvPreReady 0 2 False False) (loaderTrigger tagDom ''requestChildren'' c)))
            = [SetHasLoading False, OnPreReady, OnReady False]"
    using pr by (simp add: mc)
  show ?thesis
    using h l lc p1 p2 by (simp add: g containerOf_def)
qed

text \<open>
  C7 as stated fails on the name of the second signal: the loader has no listener under
  \<^verbatim>\<open>requestReadyChildren\<close>, and a signal of that name reaches no \<^verbatim>\<open>check\<close> of the nested
  manager, while \<^verbatim>\<open>reqeustReadyChildren\<close> does.
\<close>

theorem requestReadyChildren_counterexample:
  "map_option (listenersFor ''requestReadyChildren'' \<circ> loaderListeners)
     (containerOf (getLoader tagDom imReady 3 ''data-''))
     = Some [] \<and>
   map_option (loaderCalls \<circ> childrenImReady \<circ> loaderTrigger tagDom ''requestReadyChildren'')
     (containerOf (getLoader tagDom imReady 3 ''data-''))
     = Some [] \<and>
   map_option (loaderCalls \<circ> childrenImReady \<circ> loaderTrigger tagDom ''reqeustReadyChildren'')
     (containerOf (getLoader tagDom imReady 3 ''data-''))
     = Some [(CustomLoader ''img'' 1 ''data-'', Check), (CustomLoader ''img'' 2 ''data-'', Check)]"
  by (simp add: eval_defs wiring_defs)

text \<open>
  The test of \<^verbatim>\<open>getLoader\<close> is the truthiness of \<^verbatim>\<open>loaders[tagName]\<close>, not the presence of
  a key: for an element with the tag \<^verbatim>\<open>CONSTRUCTOR\<close>, which is no key of the loaders, the
  lookup finds the inherited \<^verbatim>\<open>Object\<close>, and \<^verbatim>\<open>getLoader\<close> returns
  \<^verbatim>\<open>new loaders["constructor"](element, options)\<close> and builds no container.
\<close>

lemma inherited_constructor_builds_no_container:
  "''constructor'' \<notin> set (loaders (options imReady)) \<and>
   lookupLoader (loaders (options imReady)) ''constructor'' = InheritedProperty \<and>
   getLoader constructorDom imReady 3 ''data-'' = Custom (CustomLoader ''constructor'' 3 ''data-'') \<and>
   containerOf (getLoader constructorDom imReady 3 ''data-'') = None"
  by (simp add: wiring_defs)

end
